theory Spec2Isabelle
  imports Complex_Main
begin

section \<open>Values, errors and the data model of \<^verbatim>\<open>src/index.ts\<close>\<close>

text \<open>
  A value that may be \<^verbatim>\<open>undefined\<close> at run time is an \<open>option\<close>.
  A thrown value is either an \<^verbatim>\<open>Error\<close> instance with its message or some other value;
  the source tells them apart with \<^verbatim>\<open>error instanceof Error\<close>.
\<close>

datatype js_error = Error string | NonError

text \<open>\<^verbatim>\<open>error instanceof Error ? error.message : 'Unknown error'\<close>\<close>

definition errorMessage :: "js_error \<Rightarrow> string" where
  "errorMessage e = (case e of Error m \<Rightarrow> m | NonError \<Rightarrow> ''Unknown error'')"

subsection \<open>Numbers\<close>

text \<open>
  A JavaScript \<^verbatim>\<open>number\<close> is an IEEE 754 double: a finite double, given by its exact
  value (the two zeros are not told apart), \<^verbatim>\<open>NaN\<close>, or an infinity. The value in
  \<open>Num\<close> is meant to be one a double has; every number the model computes is rounded
  to one by \<open>nearest_double\<close>.
\<close>

datatype js_number = Num rat | NaN | PosInfinity | NegInfinity

text \<open>
  The double nearest to a rational, ties to the even significand, as the runtime rounds
  a decimal literal: \<open>int_log2\<close> is the binary logarithm of a positive integer rounded
  down, \<open>ilog2\<close> the one of a positive rational; a double has a significand of 53 bits
  at a binary exponent from \<open>- 1022\<close> to 1023, below that the spacing stays
  \<open>2\<^sup>-\<^sup>1\<^sup>0\<^sup>7\<^sup>4\<close>, and what rounds to \<open>2\<^sup>1\<^sup>0\<^sup>2\<^sup>4\<close> or more is an infinity.
\<close>

function int_log2 :: "int \<Rightarrow> int" where
  "int_log2 n = (if n < 2 then 0 else 1 + int_log2 (n div 2))"
  by pat_completeness auto
termination
  by (relation "measure nat") auto

declare int_log2.simps [simp del]

definition ilog2 :: "rat \<Rightarrow> int" where
  "ilog2 x =
     (let k = int_log2 (fst (quotient_of x)) - int_log2 (snd (quotient_of x))
      in if 2 powi k \<le> x then k else k - 1)"

definition round_even :: "rat \<Rightarrow> int" where
  "round_even m =
     (let f = \<lfloor>m\<rfloor>; d = m - of_int f
      in if d < 1 / 2 then f else if 1 / 2 < d then f + 1 else if even f then f else f + 1)"

definition nearest_double :: "rat \<Rightarrow> js_number" where
  "nearest_double y =
     (if y = 0 then Num 0
      else let e = max (ilog2 \<bar>y\<bar>) (- 1022);
               q = 2 powi (e - 52);
               r = round_even (\<bar>y\<bar> / q)
           in if 1023 < e \<or> (e = 1023 \<and> r = 2 ^ 53)
              then (if y < 0 then NegInfinity else PosInfinity)
              else Num (if y < 0 then - (of_int r * q) else of_int r * q))"

subsection \<open>The snapshot\<close>

record CPUInfo =
  model :: string
  cores :: int
  speed :: js_number

record CPUUsage =
  total :: js_number
  user :: js_number
  system :: js_number
  idle :: js_number

record CoreStats =
  core :: nat
  load :: js_number
  loadUser :: js_number
  loadSystem :: js_number
  loadIdle :: js_number

record CPUStats =
  timestamp :: string
  hostname :: string
  cpu :: CPUInfo
  usage :: CPUUsage
  perCore :: "CoreStats list"

text \<open>
  \<^verbatim>\<open>SendResult\<close> of \<^verbatim>\<open>src/index.ts\<close>. Its \<^verbatim>\<open>timestamp\<close> field shares its name
  with the one of \<^verbatim>\<open>CPUStats\<close>; the two selectors are \<open>CPUStats.timestamp\<close> and
  \<open>SendResult.timestamp\<close>.
\<close>

record SendResult =
  success :: bool
  status :: string
  error :: "string option"
  timestamp :: string

subsection \<open>Decimal text of an index\<close>

text \<open>
  The template literal \<^verbatim>\<open>`/cpu/core/${core.core}/load`\<close> converts the core index to
  its decimal digits.
\<close>

definition digit_char :: "nat \<Rightarrow> char" where
  "digit_char d = ''0123456789'' ! d"

function string_of_nat :: "nat \<Rightarrow> string" where
  "string_of_nat n =
     (if n < 10 then [digit_char n] else string_of_nat (n div 10) @ [digit_char (n mod 10)])"
  by pat_completeness auto
termination
  by (relation "measure id") auto

declare string_of_nat.simps [simp del]

section \<open>The OSC port and \<^verbatim>\<open>sendStats\<close> (\<^verbatim>\<open>src/index.ts\<close>, lines 58-80 and 124-223)\<close>

text \<open>
  An OSC message has an address and typed arguments (\<^verbatim>\<open>'f'\<close>, \<^verbatim>\<open>'s'\<close>, \<^verbatim>\<open>'i'\<close>).
  The module-level handle \<^verbatim>\<open>oscPort\<close> is \<^verbatim>\<open>null\<close> until \<^verbatim>\<open>initializeOSC\<close> runs, so
  it is a \<open>UDPPort option\<close>. The port keeps the messages handed to \<^verbatim>\<open>send\<close> by the
  calls that returned, in order (every one is addressed to \<^verbatim>\<open>OSC_HOST:OSC_PORT\<close>),
  the lines its \<^verbatim>\<open>'error'\<close> handler has written with \<^verbatim>\<open>console.error\<close>, and the
  number of calls of \<^verbatim>\<open>close\<close>.

  The \<^verbatim>\<open>osc\<close> library is not part of the repository. How a call of \<^verbatim>\<open>send\<close> fails
  is a parameter of the model: a \<open>send_fault\<close> looks at the port and at the message and
  says whether the call throws a value, or returns and the port emits an \<^verbatim>\<open>'error'\<close>
  event for it (with the message of the error), or neither.
\<close>

datatype osc_arg = OscF js_number | OscS string | OscI int

record osc_message =
  address :: string
  args :: "osc_arg list"

record UDPPort =
  isOpen :: bool
  sent :: "osc_message list"
  errorLog :: "string list"
  closeCalls :: nat

datatype send_failure = Throws js_error | Emits string

type_synonym send_fault = "UDPPort \<Rightarrow> osc_message \<Rightarrow> send_failure option"

definition no_fault :: send_fault where
  "no_fault p m = None"

text \<open>
  \<^verbatim>\<open>oscPort = new osc.UDPPort({...}); oscPort.on('ready', ...); oscPort.on('error', ...);
  oscPort.open()\<close>. The \<^verbatim>\<open>'error'\<close> handler is part of \<open>port_send\<close> below.
\<close>

definition initializeOSC :: "UDPPort option \<Rightarrow> UDPPort option" where
  "initializeOSC port = Some \<lparr>isOpen = True, sent = [], errorLog = [], closeCalls = 0\<rparr>"

text \<open>\<^verbatim>\<open>oscPort.close()\<close>: the handle itself stays in \<^verbatim>\<open>oscPort\<close>.\<close>

definition port_close :: "UDPPort \<Rightarrow> UDPPort" where
  "port_close p = p\<lparr>isOpen := False, closeCalls := closeCalls p + 1\<rparr>"

text \<open>
  \<^verbatim>\<open>oscPort.send(msg, OSC_HOST, OSC_PORT)\<close>: the call throws and leaves the port as it
  was, or it returns and the message is among those handed to the port. When the port
  emits an \<^verbatim>\<open>'error'\<close> event for the message, the handler installed by
  \<^verbatim>\<open>initializeOSC\<close> runs, \<^verbatim>\<open>console.error(`OSC Error: ${error.message}`)\<close>, and does
  nothing else; whether the event fires during the call or later, the model writes the
  line at the call.
\<close>

definition port_send :: "send_fault \<Rightarrow> osc_message \<Rightarrow> UDPPort \<Rightarrow> (js_error + unit) \<times> UDPPort" where
  "port_send flt m p =
     (case flt p m of
        Some (Throws e) \<Rightarrow> (Inl e, p)
      | Some (Emits msg) \<Rightarrow>
          (Inr (), p\<lparr>sent := sent p @ [m], errorLog := errorLog p @ [''OSC Error: '' @ msg]\<rparr>)
      | None \<Rightarrow> (Inr (), p\<lparr>sent := sent p @ [m]\<rparr>))"

text \<open>Consecutive \<^verbatim>\<open>send\<close> statements: the first one that throws ends the sequence.\<close>

fun send_each :: "send_fault \<Rightarrow> osc_message list \<Rightarrow> UDPPort \<Rightarrow> (js_error + unit) \<times> UDPPort" where
  "send_each flt [] p = (Inr (), p)"
| "send_each flt (m # ms) p =
     (case port_send flt m p of
        (Inl e, p') \<Rightarrow> (Inl e, p')
      | (Inr u, p') \<Rightarrow> send_each flt ms p')"

text \<open>
  The messages of one call of \<^verbatim>\<open>sendStats\<close>, in program order: four usage messages,
  two info messages, the \<^verbatim>\<open>forEach\<close> over \<^verbatim>\<open>stats.perCore\<close>, and the batch marker.
\<close>

definition core_message :: "CoreStats \<Rightarrow> osc_message" where
  "core_message c =
     \<lparr>address = ''/cpu/core/'' @ string_of_nat (core c) @ ''/load'', args = [OscF (load c)]\<rparr>"

definition osc_batch :: "CPUStats \<Rightarrow> osc_message list" where
  "osc_batch stats =
     [\<lparr>address = ''/cpu/usage/total'', args = [OscF (total (usage stats))]\<rparr>,
      \<lparr>address = ''/cpu/usage/user'', args = [OscF (user (usage stats))]\<rparr>,
      \<lparr>address = ''/cpu/usage/system'', args = [OscF (system (usage stats))]\<rparr>,
      \<lparr>address = ''/cpu/usage/idle'', args = [OscF (idle (usage stats))]\<rparr>,
      \<lparr>address = ''/cpu/info/model'', args = [OscS (model (cpu stats))]\<rparr>,
      \<lparr>address = ''/cpu/info/cores'', args = [OscI (cores (cpu stats))]\<rparr>]
     @ map core_message (perCore stats)
     @ [\<lparr>address = ''/cpu/timestamp'', args = [OscS (CPUStats.timestamp stats)]\<rparr>]"

text \<open>The body of the \<^verbatim>\<open>try\<close> block, up to the \<^verbatim>\<open>return\<close>.\<close>

definition sendStats_try ::
  "send_fault \<Rightarrow> CPUStats \<Rightarrow> UDPPort option \<Rightarrow> (js_error + unit) \<times> UDPPort option" where
  "sendStats_try flt stats port =
     (case port of
        None \<Rightarrow> (Inl (Error ''OSC port not initialized''), None)
      | Some p \<Rightarrow> (case send_each flt (osc_batch stats) p of (r, p') \<Rightarrow> (r, Some p')))"

text \<open>
  \<^verbatim>\<open>sendStats\<close> with its \<^verbatim>\<open>catch\<close>. The result is a sum so that a value thrown out
  of the function would be an \<open>Inl\<close>; \<open>now\<close> is \<^verbatim>\<open>new Date().toISOString()\<close>.
\<close>

definition sendStats ::
  "send_fault \<Rightarrow> string \<Rightarrow> CPUStats \<Rightarrow> UDPPort option \<Rightarrow> (js_error + SendResult) \<times> UDPPort option" where
  "sendStats flt now stats port =
     (case sendStats_try flt stats port of
        (Inr u, port') \<Rightarrow>
          (Inr \<lparr>success = True, status = ''OK'', error = None, timestamp = now\<rparr>, port')
      | (Inl e, port') \<Rightarrow>
          (Inr \<lparr>success = False, status = ''ERROR'', error = Some (errorMessage e),
                timestamp = now\<rparr>, port'))"

section \<open>\<^verbatim>\<open>sendStats\<close> of the HTTP POST variant (\<^verbatim>\<open>src/unnamed/part_001\<close>, lines 100-138)\<close>

text \<open>
  What \<^verbatim>\<open>await axios.post(...)\<close> does is not repository code; its outcomes are the
  cases the \<^verbatim>\<open>catch\<close> block tells apart: a response (the promise resolves), an Axios
  error with a response, an Axios error with a request only, an Axios error with
  neither, another \<^verbatim>\<open>Error\<close>, or some other thrown value.
\<close>

datatype axios_outcome =
    Responded nat
  | AxiosResponseError nat string
  | AxiosRequestError
  | AxiosSetupError string
  | OtherError string
  | OtherThrown

record SendResultHTTP = SendResult +
  statusCode :: "nat option"

definition http_errorMessage :: "axios_outcome \<Rightarrow> string" where
  "http_errorMessage out =
     (case out of
        AxiosResponseError st txt \<Rightarrow> ''HTTP '' @ string_of_nat st @ '': '' @ txt
      | AxiosRequestError \<Rightarrow> ''Network error - Unable to reach target''
      | AxiosSetupError m \<Rightarrow> m
      | OtherError m \<Rightarrow> m
      | _ \<Rightarrow> ''Unknown error'')"

definition sendStats_http :: "axios_outcome \<Rightarrow> string \<Rightarrow> CPUStats \<Rightarrow> js_error + SendResultHTTP" where
  "sendStats_http out now stats =
     (case out of
        Responded st \<Rightarrow>
          Inr \<lparr>success = True, status = ''OK'', error = None, timestamp = now,
               statusCode = Some st\<rparr>
      | _ \<Rightarrow>
          Inr \<lparr>success = False, status = ''ERROR'', error = Some (http_errorMessage out),
               timestamp = now, statusCode = None\<rparr>)"

section \<open>The collector \<^verbatim>\<open>collectCPUStats\<close> (\<^verbatim>\<open>src/index.ts\<close>, lines 86-117)\<close>

text \<open>
  The answers of the \<^verbatim>\<open>systeminformation\<close> library. A percentage may be missing
  (\<^verbatim>\<open>undefined\<close>) at run time, whatever the type declarations say, so each one is an
  \<open>option\<close>. The fields that clash with the snapshot's own carry the prefix \<open>si_\<close>.
\<close>

record CurrentLoadCpuData =
  si_load :: "js_number option"
  si_loadUser :: "js_number option"
  si_loadSystem :: "js_number option"
  si_loadIdle :: "js_number option"

record CurrentLoadData =
  currentLoad :: "js_number option"
  currentLoadUser :: "js_number option"
  currentLoadSystem :: "js_number option"
  currentLoadIdle :: "js_number option"
  cpus :: "CurrentLoadCpuData list"

record CpuData =
  brand :: string
  si_cores :: int
  si_speed :: js_number

text \<open>
  \<^verbatim>\<open>x.toFixed(2)\<close> on a finite \<open>x\<close> of magnitude below \<open>10\<^sup>2\<^sup>1\<close> prints the decimal
  \<open>n / 100\<close> for the integer \<open>n\<close> nearest to \<open>100 * x\<close>, the larger one of two equally
  near; a negative \<open>x\<close> is printed as the sign and the digits of \<open>- x\<close>. \<open>toFixed2\<close> is
  the value of that decimal.
\<close>

definition toFixed2 :: "rat \<Rightarrow> rat" where
  "toFixed2 x =
     (if x < 0 then - (of_int \<lfloor>- x * 100 + 1 / 2\<rfloor> / 100)
      else of_int \<lfloor>x * 100 + 1 / 2\<rfloor> / 100)"

text \<open>
  \<^verbatim>\<open>parseFloat(x.toFixed(2))\<close> on a number: \<^verbatim>\<open>parseFloat\<close> gives the double nearest
  to the printed decimal. From \<open>10\<^sup>2\<^sup>1\<close> on \<^verbatim>\<open>toFixed\<close> prints the number as
  \<^verbatim>\<open>String\<close> does, which reads back as the same double; \<^verbatim>\<open>NaN\<close> and the infinities
  are printed by name, and \<^verbatim>\<open>parseFloat\<close> reads them back as \<^verbatim>\<open>NaN\<close> and the same
  infinity.
\<close>

definition parseFloat_toFixed2 :: "js_number \<Rightarrow> js_number" where
  "parseFloat_toFixed2 v =
     (case v of
        Num x \<Rightarrow> nearest_double (if 10 ^ 21 \<le> \<bar>x\<bar> then x else toFixed2 x)
      | NaN \<Rightarrow> NaN
      | PosInfinity \<Rightarrow> PosInfinity
      | NegInfinity \<Rightarrow> NegInfinity)"

text \<open>
  \<^verbatim>\<open>parseFloat(v.toFixed(2))\<close> on a field of the host's answer: calling the method on
  \<^verbatim>\<open>undefined\<close> throws a \<^verbatim>\<open>TypeError\<close>, an \<^verbatim>\<open>Error\<close> instance whose message is the
  engine's.
\<close>

definition fixed2 :: "js_number option \<Rightarrow> js_error + js_number" where
  "fixed2 v =
     (case v of
        None \<Rightarrow> Inl (Error ''Cannot read properties of undefined (reading toFixed)'')
      | Some x \<Rightarrow> Inr (parseFloat_toFixed2 x))"

text \<open>Sequencing of computations that may throw.\<close>

definition bind_r :: "js_error + 'a \<Rightarrow> ('a \<Rightarrow> js_error + 'b) \<Rightarrow> js_error + 'b" where
  "bind_r r f = (case r of Inl e \<Rightarrow> Inl e | Inr x \<Rightarrow> f x)"

fun map_r :: "('a \<Rightarrow> js_error + 'b) \<Rightarrow> 'a list \<Rightarrow> js_error + 'b list" where
  "map_r f [] = Inr []"
| "map_r f (x # xs) = bind_r (f x) (\<lambda>y. bind_r (map_r f xs) (\<lambda>ys. Inr (y # ys)))"

text \<open>The callback of \<^verbatim>\<open>currentLoad.cpus.map((cpu, index) => ...)\<close>.\<close>

definition core_stats :: "nat \<times> CurrentLoadCpuData \<Rightarrow> js_error + CoreStats" where
  "core_stats ic =
     bind_r (fixed2 (si_load (snd ic))) (\<lambda>l.
     bind_r (fixed2 (si_loadUser (snd ic))) (\<lambda>lu.
     bind_r (fixed2 (si_loadSystem (snd ic))) (\<lambda>ls.
     bind_r (fixed2 (si_loadIdle (snd ic))) (\<lambda>li.
       Inr \<lparr>core = fst ic, load = l, loadUser = lu, loadSystem = ls, loadIdle = li\<rparr>))))"

text \<open>
  The \<^verbatim>\<open>try\<close> block: \<open>loadR\<close> and \<open>cpuR\<close> are how \<^verbatim>\<open>await si.currentLoad()\<close> and
  \<^verbatim>\<open>await si.cpu()\<close> settle, \<open>now\<close> is \<^verbatim>\<open>new Date().toISOString()\<close> and \<open>host\<close>
  is \<^verbatim>\<open>os.hostname()\<close>.
\<close>

definition collect_try ::
  "string \<Rightarrow> string \<Rightarrow> js_error + CurrentLoadData \<Rightarrow> js_error + CpuData \<Rightarrow> js_error + CPUStats" where
  "collect_try now host loadR cpuR =
     bind_r loadR (\<lambda>cl.
     bind_r cpuR (\<lambda>cpuInfo.
     bind_r (fixed2 (currentLoad cl)) (\<lambda>t.
     bind_r (fixed2 (currentLoadUser cl)) (\<lambda>u.
     bind_r (fixed2 (currentLoadSystem cl)) (\<lambda>s.
     bind_r (fixed2 (currentLoadIdle cl)) (\<lambda>i.
     bind_r (map_r core_stats (enumerate 0 (cpus cl))) (\<lambda>pc.
       Inr \<lparr>CPUStats.timestamp = now, hostname = host,
            cpu = \<lparr>model = brand cpuInfo, cores = si_cores cpuInfo, speed = si_speed cpuInfo\<rparr>,
            usage = \<lparr>total = t, user = u, system = s, idle = i\<rparr>,
            perCore = pc\<rparr>)))))))"

text \<open>The \<^verbatim>\<open>catch\<close> block rethrows every failure with a prefixed message.\<close>

definition collectCPUStats ::
  "string \<Rightarrow> string \<Rightarrow> js_error + CurrentLoadData \<Rightarrow> js_error + CpuData \<Rightarrow> js_error + CPUStats" where
  "collectCPUStats now host loadR cpuR =
     (case collect_try now host loadR cpuR of
        Inl e \<Rightarrow> Inl (Error (''Failed to collect CPU stats: '' @ errorMessage e))
      | Inr stats \<Rightarrow> Inr stats)"

section \<open>Configuration (\<^verbatim>\<open>src/index.ts\<close>, lines 48-50)\<close>

text \<open>
  \<^verbatim>\<open>parseInt(str, 10)\<close>: leading white space is skipped, one sign is read, then the
  longest run of decimal digits; with no digit the result is \<^verbatim>\<open>NaN\<close>, otherwise the
  double nearest to the signed integer (an engine may replace the digits after the
  twentieth by zeros first). Strings are ASCII here, so only the ASCII white space of
  JavaScript is recognised.
\<close>

definition is_js_space :: "char \<Rightarrow> bool" where
  "is_js_space c = (c \<in> set [CHR '' '', CHR 0x09, CHR 0x0A, CHR 0x0B, CHR 0x0C, CHR 0x0D])"

definition is_digit :: "char \<Rightarrow> bool" where
  "is_digit c = (c \<in> set ''0123456789'')"

definition digit_val :: "char \<Rightarrow> nat" where
  "digit_val c = of_char c - 48"

definition digits_value :: "string \<Rightarrow> nat" where
  "digits_value z = foldl (\<lambda>a c. 10 * a + digit_val c) 0 z"

definition parseInt10 :: "string \<Rightarrow> js_number" where
  "parseInt10 str =
     (let s = dropWhile is_js_space str;
          neg = (case s of c # cs \<Rightarrow> c = CHR ''-'' | [] \<Rightarrow> False);
          s' = (case s of c # cs \<Rightarrow> (if c = CHR ''-'' \<or> c = CHR ''+'' then cs else s) | [] \<Rightarrow> s);
          z = takeWhile is_digit s'
      in if z = [] then NaN
         else nearest_double ((if neg then - 1 else 1) * of_nat (digits_value z)))"

text \<open>
  \<^verbatim>\<open>process.env.X || d\<close>: an unset variable and an empty one both give the default.
\<close>

definition env_or :: "string option \<Rightarrow> string \<Rightarrow> string" where
  "env_or v d = (case v of None \<Rightarrow> d | Some s \<Rightarrow> (if s = [] then d else s))"

text \<open>
  \<^verbatim>\<open>const INTERVAL_MS = parseInt(process.env.INTERVAL_MS || '10000', 10)\<close>, as a
  function of the environment variable.
\<close>

definition INTERVAL_MS :: "string option \<Rightarrow> js_number" where
  "INTERVAL_MS env = parseInt10 (env_or env ''10000'')"

section \<open>The scheduler: the effect of \<^verbatim>\<open>App\<close> and \<^verbatim>\<open>shutdown\<close> (\<^verbatim>\<open>src/index.ts\<close>, lines 228-284 and 455-468)\<close>

text \<open>
  The state is the component's three state variables, the closure variable
  \<^verbatim>\<open>isMounted\<close>, the module-level port handle and the module-level constant
  \<^verbatim>\<open>INTERVAL_MS\<close> (\<open>intervalMs\<close>), whether the interval timer is set and the delay
  \<^verbatim>\<open>setInterval\<close> was called with, the cycles in flight and whether the process has
  exited. A cycle is one call of \<^verbatim>\<open>monitor\<close>; it is in flight from the call until the
  function's promise settles. \<open>started\<close> counts the calls so far and numbers the
  cycles. What the runtime's timer does with the delay it is given is outside the
  repository; a tick is an event of the model.
\<close>

record App =
  cpuStats :: "CPUStats option"
  lastSend :: SendResult
  isLoading :: bool
  isMounted :: bool
  oscPort :: "UDPPort option"
  intervalMs :: js_number
  intervalActive :: bool
  intervalDelay :: "js_number option"
  inflight :: "nat list"
  started :: nat
  exited :: bool

text \<open>
  The module has been loaded and the component rendered for the first time: \<open>env\<close> is
  \<^verbatim>\<open>process.env.INTERVAL_MS\<close> and \<open>t0\<close> the clock.
\<close>

definition initialApp :: "string option \<Rightarrow> string \<Rightarrow> App" where
  "initialApp env t0 =
     \<lparr>cpuStats = None,
      lastSend = \<lparr>success = False, status = ''Initializing...'', error = None, timestamp = t0\<rparr>,
      isLoading = True, isMounted = False, oscPort = None, intervalMs = INTERVAL_MS env,
      intervalActive = False, intervalDelay = None, inflight = [], started = 0, exited = False\<rparr>"

text \<open>
  A call \<^verbatim>\<open>monitor()\<close> runs up to the first \<^verbatim>\<open>await\<close> inside \<^verbatim>\<open>collectCPUStats\<close>
  and returns; the cycle is then in flight. The function tests nothing before it starts.
\<close>

definition start_monitor :: "App \<Rightarrow> App" where
  "start_monitor s = s\<lparr>inflight := inflight s @ [started s], started := started s + 1\<rparr>"

text \<open>The \<^verbatim>\<open>catch\<close> block of \<^verbatim>\<open>monitor\<close>.\<close>

definition monitor_catch :: "string \<Rightarrow> js_error \<Rightarrow> App \<Rightarrow> App" where
  "monitor_catch now e s =
     (if isMounted s
      then s\<lparr>lastSend := \<lparr>success = False, status = ''ERROR'', error = Some (errorMessage e),
                          timestamp = now\<rparr>,
             isLoading := False\<rparr>
      else s)"

text \<open>
  The rest of \<^verbatim>\<open>monitor\<close> once \<^verbatim>\<open>await collectCPUStats()\<close> has settled with \<open>r\<close>.
  \<^verbatim>\<open>sendStats\<close> has no \<^verbatim>\<open>await\<close> in its body, so it runs to its end inside this step;
  the \<^verbatim>\<open>await\<close> on its result only defers \<^verbatim>\<open>setLastSend\<close> to the next microtask,
  before any timer or signal, and the model takes both as one step.
\<close>

definition monitor_resume :: "send_fault \<Rightarrow> string \<Rightarrow> js_error + CPUStats \<Rightarrow> App \<Rightarrow> App" where
  "monitor_resume flt now r s =
     (case r of
        Inl e \<Rightarrow> monitor_catch now e s
      | Inr stats \<Rightarrow>
          (let s1 = (if isMounted s then s\<lparr>cpuStats := Some stats, isLoading := False\<rparr> else s)
           in case sendStats flt now stats (oscPort s1) of
                (Inl e, port') \<Rightarrow> monitor_catch now e (s1\<lparr>oscPort := port'\<rparr>)
              | (Inr sendResult, port') \<Rightarrow>
                  (let s2 = s1\<lparr>oscPort := port'\<rparr>
                   in if isMounted s2 then s2\<lparr>lastSend := sendResult\<rparr> else s2)))"

text \<open>
  The effect body: \<^verbatim>\<open>isMounted = true; initializeOSC(); monitor();
  setInterval(monitor, INTERVAL_MS)\<close>.
\<close>

definition mountEffect :: "App \<Rightarrow> App" where
  "mountEffect s =
     (start_monitor (s\<lparr>isMounted := True, oscPort := initializeOSC (oscPort s)\<rparr>))
       \<lparr>intervalActive := True, intervalDelay := Some (intervalMs s)\<rparr>"

text \<open>The function the effect returns.\<close>

definition effect_cleanup :: "App \<Rightarrow> App" where
  "effect_cleanup s =
     (let s1 = s\<lparr>isMounted := False, intervalActive := False, intervalDelay := None\<rparr>
      in case oscPort s1 of
           None \<Rightarrow> s1
         | Some p \<Rightarrow> s1\<lparr>oscPort := Some (port_close p)\<rparr>)"

text \<open>
  \<^verbatim>\<open>unmount()\<close> of the rendering library is not repository code. It is taken at React's
  contract: unmounting runs the cleanup of an effect that has run, once, and here it
  does so before \<^verbatim>\<open>process.exit(0)\<close>. \<^verbatim>\<open>isMounted\<close> is true exactly from the effect
  to its cleanup.
\<close>

definition unmount :: "App \<Rightarrow> App" where
  "unmount s = (if isMounted s then effect_cleanup s else s)"

definition shutdown :: "App \<Rightarrow> App" where
  "shutdown s =
     (let s1 = (case oscPort s of None \<Rightarrow> s | Some p \<Rightarrow> s\<lparr>oscPort := Some (port_close p)\<rparr>)
      in (unmount s1)\<lparr>exited := True\<rparr>)"

text \<open>
  What the event loop delivers: the first commit runs the effect (\<open>Mount\<close>), the timer
  fires (\<open>Tick\<close>), the collection of cycle \<open>i\<close> settles (with the clock, the host name
  and the answers of the two host queries), or a termination signal arrives.
\<close>

datatype event =
    Mount
  | Tick
  | CollectSettled nat string string "js_error + CurrentLoadData" "js_error + CpuData"
  | Signal

definition app_step :: "send_fault \<Rightarrow> App \<Rightarrow> event \<Rightarrow> App" where
  "app_step flt s ev =
     (if exited s then s
      else case ev of
        Mount \<Rightarrow> (if oscPort s = None \<and> \<not> isMounted s then mountEffect s else s)
      | Tick \<Rightarrow> (if intervalActive s then start_monitor s else s)
      | CollectSettled i now host loadR cpuR \<Rightarrow>
          (if i \<in> set (inflight s)
           then monitor_resume flt now (collectCPUStats now host loadR cpuR)
                  (s\<lparr>inflight := remove1 i (inflight s)\<rparr>)
           else s)
      | Signal \<Rightarrow> shutdown s)"

definition run :: "send_fault \<Rightarrow> App \<Rightarrow> event list \<Rightarrow> App" where
  "run flt s evs = foldl (app_step flt) s evs"

section \<open>The test receiver (\<^verbatim>\<open>src/test-server.ts\<close>, lines 43-86)\<close>

text \<open>
  The request handler of the receiver of the POST variant. \<open>parsed\<close> is what the
  \<^verbatim>\<open>try\<close> block makes of the request body: the statistics, or \<open>None\<close> when
  \<^verbatim>\<open>JSON.parse\<close> or a read of the parsed data throws. The three JSON bodies are
  \<^verbatim>\<open>{status: 'ok', received: true}\<close>, \<^verbatim>\<open>{status: 'error', message: 'Invalid JSON'}\<close>
  and \<^verbatim>\<open>{status: 'error', message: 'Not found'}\<close>.
\<close>

datatype test_reply = Received | InvalidJSON | NotFound

record test_response =
  test_status :: nat
  test_body :: test_reply

definition test_server :: "string \<Rightarrow> string \<Rightarrow> CPUStats option \<Rightarrow> test_response" where
  "test_server method url parsed =
     (if method = ''POST'' \<and> url = ''/cpu-stats''
      then (case parsed of
              Some d \<Rightarrow> \<lparr>test_status = 200, test_body = Received\<rparr>
            | None \<Rightarrow> \<lparr>test_status = 400, test_body = InvalidJSON\<rparr>)
      else \<lparr>test_status = 404, test_body = NotFound\<rparr>)"

section \<open>The HTTP pull endpoint\<close>

text \<open>
  The responder of the pull endpoint is documented in \<^verbatim>\<open>README.md\<close> and polled by
  \<^verbatim>\<open>menubar/SystemOSCMenu.swift\<close>, but \<^verbatim>\<open>src/index.ts\<close> has no HTTP server, and
  the test receiver is not it: it serves \<^verbatim>\<open>POST /cpu-stats\<close> only.
\<close>

text \<open>
  Modelled from the spec: the values, the name and value pairs and the responses of the
  endpoint, and the value a pair carries for an OSC argument.
\<close>

datatype pull_value = NumberValue js_number | StringValue string

record name_value =
  name :: string
  val :: pull_value

datatype http_body = ErrorBody string | ArrayBody "name_value list"

record http_response =
  http_status :: nat
  body :: http_body

definition osc_value :: "osc_arg \<Rightarrow> pull_value" where
  "osc_value a =
     (case a of
        OscF x \<Rightarrow> NumberValue x
      | OscI n \<Rightarrow> NumberValue (Num (of_int n))
      | OscS t \<Rightarrow> StringValue t)"

text \<open>
  Modelled from the spec: the body of a successful \<^verbatim>\<open>GET /\<close>, which is missing from
  the sources. It is the JSON array of name and value pairs that mirrors the UDP
  message set exactly: same addresses as names, same per-core expansion, the
  \<^verbatim>\<open>/cpu/timestamp\<close> entry last.
\<close>

definition pull_pairs :: "CPUStats \<Rightarrow> name_value list" where
  "pull_pairs snap =
     [\<lparr>name = ''/cpu/usage/total'', val = NumberValue (total (usage snap))\<rparr>,
      \<lparr>name = ''/cpu/usage/user'', val = NumberValue (user (usage snap))\<rparr>,
      \<lparr>name = ''/cpu/usage/system'', val = NumberValue (system (usage snap))\<rparr>,
      \<lparr>name = ''/cpu/usage/idle'', val = NumberValue (idle (usage snap))\<rparr>,
      \<lparr>name = ''/cpu/info/model'', val = StringValue (model (cpu snap))\<rparr>,
      \<lparr>name = ''/cpu/info/cores'', val = NumberValue (Num (of_int (cores (cpu snap))))\<rparr>]
     @ map (\<lambda>c. \<lparr>name = ''/cpu/core/'' @ string_of_nat (core c) @ ''/load'',
                 val = NumberValue (load c)\<rparr>) (perCore snap)
     @ [\<lparr>name = ''/cpu/timestamp'', val = StringValue (CPUStats.timestamp snap)\<rparr>]"

text \<open>
  Modelled from the spec: the pull sink, which is missing from the sources. On each
  cycle it replaces the store by the snapshot; the store is absent until the first
  cycle has completed.
\<close>

definition pull_disseminate :: "CPUStats \<Rightarrow> CPUStats option \<Rightarrow> CPUStats option" where
  "pull_disseminate snap store = Some snap"

text \<open>
  Modelled from the spec: the responder of \<^verbatim>\<open>GET /\<close>, which is missing from the
  sources. It answers from the store: 503 and the error body while the store is
  absent, 200 and the array of the stored snapshot afterwards.
\<close>

definition http_get :: "CPUStats option \<Rightarrow> http_response" where
  "http_get store =
     (case store of
        None \<Rightarrow> \<lparr>http_status = 503, body = ErrorBody ''No data available yet''\<rparr>
      | Some snap \<Rightarrow> \<lparr>http_status = 200, body = ArrayBody (pull_pairs snap)\<rparr>)"

section \<open>Predicates and example inputs of the statements\<close>





text \<open>No percentage of the host's answer is missing.\<close>

definition percentages_present :: "CurrentLoadData \<Rightarrow> bool" where
  "percentages_present cl =
     (currentLoad cl \<noteq> None \<and> currentLoadUser cl \<noteq> None \<and> currentLoadSystem cl \<noteq> None \<and>
      currentLoadIdle cl \<noteq> None \<and>
      list_all (\<lambda>c. si_load c \<noteq> None \<and> si_loadUser c \<noteq> None \<and> si_loadSystem c \<noteq> None \<and>
                    si_loadIdle c \<noteq> None) (cpus cl))"

text \<open>
  The invariant of the running application: until the process exits, the port handle is
  set exactly while the effect is mounted and \<^verbatim>\<open>close\<close> has not been called on it,
  the timer is set while the effect is mounted, and before the effect has run no cycle
  is in flight and no timer is set.
\<close>

definition port_inv :: "App \<Rightarrow> bool" where
  "port_inv s =
     (exited s \<or>
      ((case oscPort s of None \<Rightarrow> \<not> isMounted s | Some p \<Rightarrow> isMounted s \<and> closeCalls p = 0) \<and>
       (if isMounted s then intervalActive s else inflight s = [] \<and> \<not> intervalActive s)))"

text \<open>
  The invariant of the timer: the constant is what the environment gave, and while the
  timer is set its delay is the constant.
\<close>

definition timer_inv :: "string option \<Rightarrow> App \<Rightarrow> bool" where
  "timer_inv env s =
     (intervalMs s = INTERVAL_MS env \<and>
      (if intervalActive s then intervalDelay s = Some (INTERVAL_MS env) else True))"

text \<open>
  The ten-core example of \<^verbatim>\<open>README.md\<close>; each number is the double nearest to the
  decimal printed there.
\<close>

definition example_stats :: CPUStats where
  "example_stats =
     \<lparr>CPUStats.timestamp = ''2025-11-12T01:23:45.789Z'', hostname = ''MacBook-Pro.local'',
      cpu = \<lparr>model = ''Apple M1 Max'', cores = 10, speed = nearest_double (12 / 5)\<rparr>,
      usage = \<lparr>total = nearest_double (4645 / 100), user = nearest_double (2844 / 100),
               system = nearest_double (1801 / 100), idle = nearest_double (5355 / 100)\<rparr>,
      perCore =
        map (\<lambda>(i, l). \<lparr>core = i, load = nearest_double l, loadUser = nearest_double l,
                        loadSystem = Num 0, loadIdle = nearest_double (100 - l)\<rparr>)
          (enumerate 0 [9709 / 100, 9709 / 100, 7036 / 100, 5603 / 100, 4109 / 100,
                        3269 / 100, 3528 / 100, 1886 / 100, 1011 / 100, 621 / 100])\<rparr>"

definition new_port :: UDPPort where
  "new_port = \<lparr>isOpen = True, sent = [], errorLog = [], closeCalls = 0\<rparr>"

text \<open>A port whose \<^verbatim>\<open>send\<close> throws at the third message of a batch.\<close>

definition failing_send :: send_fault where
  "failing_send p m =
     (if address m = ''/cpu/usage/system'' then Some (Throws (Error ''send EMSGSIZE'')) else None)"

text \<open>
  A port that cannot reach the target: every \<^verbatim>\<open>send\<close> returns, and the port emits an
  \<^verbatim>\<open>'error'\<close> event for it.
\<close>

definition emitting_send :: send_fault where
  "emitting_send p m = Some (Emits ''send ENETUNREACH'')"

text \<open>
  A host that reports two per-core entries; every value is a double (46.453125,
  28.4375, 18.0078125, ...) with more than two decimal places. The hardware answers:
  two cores, and four cores.
\<close>

definition example_load :: CurrentLoadData where
  "example_load =
     \<lparr>currentLoad = Some (Num (2973 / 64)), currentLoadUser = Some (Num (455 / 16)),
      currentLoadSystem = Some (Num (2305 / 128)), currentLoadIdle = Some (Num (3427 / 64)),
      cpus = [\<lparr>si_load = Some (Num (3107 / 32)), si_loadUser = Some (Num (8335 / 128)),
               si_loadSystem = Some (Num (1023 / 32)), si_loadIdle = Some (Num (93 / 32))\<rparr>,
              \<lparr>si_load = Some (Num (4503 / 64)), si_loadUser = Some (Num 50),
               si_loadSystem = Some (Num (1303 / 64)), si_loadIdle = Some (Num (1897 / 64))\<rparr>]\<rparr>"

definition example_cpu :: CpuData where
  "example_cpu = \<lparr>brand = ''Apple M1 Max'', si_cores = 2, si_speed = nearest_double (12 / 5)\<rparr>"

definition four_core_cpu :: CpuData where
  "four_core_cpu = \<lparr>brand = ''Apple M1 Max'', si_cores = 4, si_speed = nearest_double (12 / 5)\<rparr>"

text \<open>
  The snapshot of that host, for a core count \<open>n\<close>: 46.45, 28.44, 18.01, 53.55 and so
  on, each as the double nearest to it.
\<close>

definition example_snapshot :: "int \<Rightarrow> CPUStats" where
  "example_snapshot n =
     \<lparr>CPUStats.timestamp = ''t1'', hostname = ''studio'',
      cpu = \<lparr>model = ''Apple M1 Max'', cores = n, speed = nearest_double (12 / 5)\<rparr>,
      usage = \<lparr>total = nearest_double (4645 / 100), user = nearest_double (2844 / 100),
               system = nearest_double (1801 / 100), idle = nearest_double (5355 / 100)\<rparr>,
      perCore = [\<lparr>core = 0, load = nearest_double (9709 / 100),
                  loadUser = nearest_double (6512 / 100),
                  loadSystem = nearest_double (3197 / 100),
                  loadIdle = nearest_double (291 / 100)\<rparr>,
                 \<lparr>core = 1, load = nearest_double (7036 / 100), loadUser = Num 50,
                  loadSystem = nearest_double (2036 / 100),
                  loadIdle = nearest_double (2964 / 100)\<rparr>]\<rparr>"

text \<open>A host that reports a negative idle percentage.\<close>

definition negative_load :: CurrentLoadData where
  "negative_load =
     \<lparr>currentLoad = Some (Num 100), currentLoadUser = Some (Num 60),
      currentLoadSystem = Some (Num 40), currentLoadIdle = Some (Num (- 1 / 2)), cpus = []\<rparr>"


text \<open>The application right after the effect has run, with \<^verbatim>\<open>INTERVAL_MS\<close> unset.\<close>

definition mounted_app :: App where
  "mounted_app = mountEffect (initialApp None ''t0'')"

section \<open>Doubles: the rounding is near and exact on small integers\<close>

lemma int_log2_bounds:
  "1 \<le> n \<Longrightarrow> 0 \<le> int_log2 n \<and> 2 ^ nat (int_log2 n) \<le> n \<and> n < 2 * 2 ^ nat (int_log2 n)"
proof (induction n rule: int_log2.induct)
  case (1 n)
  show ?case
  proof (cases "n < 2")
    case True
    with "1.prems" show ?thesis
      by (simp add: int_log2.simps [of n])
  next
    case False
    then have h: "1 \<le> n div 2" by simp
    from "1.IH" [OF False h] have ih: "0 \<le> int_log2 (n div 2)"
      "2 ^ nat (int_log2 (n div 2)) \<le> n div 2" "n div 2 < 2 * 2 ^ nat (int_log2 (n div 2))"
      by simp_all
    have e: "int_log2 n = 1 + int_log2 (n div 2)"
      using False by (simp add: int_log2.simps [of n])
    from ih(1) have p: "(2::int) ^ nat (1 + int_log2 (n div 2)) = 2 * 2 ^ nat (int_log2 (n div 2))"
      by (simp add: nat_add_distrib)
    from ih show ?thesis
      unfolding e p by (simp, linarith)
  qed
qed

lemma ilog2_bounds:
  assumes "0 < x"
  shows "2 powi (ilog2 x) \<le> x \<and> x < 2 powi (ilog2 x + 1)"
proof -
  obtain a b where q: "quotient_of x = (a, b)" by (cases "quotient_of x")
  then have b: "0 < b" and x: "x = of_int a / of_int b"
    by (auto dest: quotient_of_denom_pos quotient_of_div)
  with assms have a: "0 < a"
    by (simp add: zero_less_divide_iff)
  define la lb where "la = int_log2 a" and "lb = int_log2 b"
  from a b int_log2_bounds [of a] int_log2_bounds [of b]
  have la: "0 \<le> la" "2 ^ nat la \<le> a" "a < 2 * 2 ^ nat la"
    and lb: "0 \<le> lb" "2 ^ nat lb \<le> b" "b < 2 * 2 ^ nat lb"
    by (simp_all add: la_def lb_def)
  have pa: "(2::rat) powi la = 2 ^ nat la" and pb: "(2::rat) powi lb = 2 ^ nat lb"
    using la(1) lb(1) by (simp_all add: power_int_def)
  from la(2,3) have ra: "(2::rat) powi la \<le> of_int a" "of_int a < 2 * (2::rat) powi la"
    unfolding pa
    by (metis of_int_le_iff of_int_numeral of_int_power, metis of_int_less_iff of_int_mult of_int_numeral of_int_power)
  from lb(2,3) have rb: "(2::rat) powi lb \<le> of_int b" "of_int b < 2 * (2::rat) powi lb"
    unfolding pb
    by (metis of_int_le_iff of_int_numeral of_int_power, metis of_int_less_iff of_int_mult of_int_numeral of_int_power)
  let ?k = "la - lb"
  have pk: "(2::rat) powi ?k = 2 powi la / 2 powi lb"
    by (simp add: power_int_diff)
  have pk1: "(2::rat) powi (?k + 1) = 2 * 2 powi ?k"
    by (simp add: power_int_add)
  have pkm: "(2::rat) powi (?k - 1) = 2 powi ?k / 2"
    by (simp add: power_int_diff)
  have pos: "0 < (2::rat) powi la" "0 < (2::rat) powi lb" "0 < (of_int b :: rat)"
    using b by simp_all
  have up: "x < 2 powi (?k + 1)"
  proof -
    have "x * of_int b = of_int a" using b x by simp
    also have "\<dots> < 2 * 2 powi la" by (rule ra(2))
    also have "\<dots> = (2 * 2 powi ?k) * 2 powi lb" using pos by (simp add: pk)
    also have "\<dots> \<le> (2 * 2 powi ?k) * of_int b"
      using rb(1) by (intro mult_left_mono) simp_all
    finally show ?thesis using pos unfolding pk1 by simp
  qed
  have low: "2 powi (?k - 1) < x"
  proof -
    have "(2::rat) powi (?k - 1) * of_int b < 2 powi (?k - 1) * (2 * 2 powi lb)"
      using rb(2) by (intro mult_strict_left_mono) simp_all
    also have "\<dots> = 2 powi la" using pos by (simp add: pkm pk)
    also have "\<dots> \<le> of_int a" by (rule ra(1))
    also have "\<dots> = x * of_int b" using b x by simp
    finally show ?thesis using pos by simp
  qed
  have il: "ilog2 x = (if 2 powi ?k \<le> x then ?k else ?k - 1)"
    by (simp add: ilog2_def q la_def lb_def Let_def)
  show ?thesis
  proof (cases "2 powi ?k \<le> x")
    case True
    with up il show ?thesis by simp
  next
    case False
    with low il show ?thesis by simp
  qed
qed

lemma round_even_near: "\<bar>of_int (round_even m) - m\<bar> \<le> 1 / 2"
proof -
  have f: "of_int \<lfloor>m\<rfloor> \<le> m" "m < of_int \<lfloor>m\<rfloor> + 1"
    by linarith+
  consider "m - of_int \<lfloor>m\<rfloor> < 1 / 2" | "1 / 2 < m - of_int \<lfloor>m\<rfloor>" | "m - of_int \<lfloor>m\<rfloor> = 1 / 2"
    by linarith
  then show ?thesis
  proof cases
    case 1
    then have "round_even m = \<lfloor>m\<rfloor>" by (simp add: round_even_def Let_def)
    with 1 f show ?thesis by simp
  next
    case 2
    then have "round_even m = \<lfloor>m\<rfloor> + 1" by (simp add: round_even_def Let_def)
    with 2 f show ?thesis by simp
  next
    case 3
    then have "round_even m = \<lfloor>m\<rfloor> \<or> round_even m = \<lfloor>m\<rfloor> + 1"
      by (simp add: round_even_def Let_def)
    with 3 f show ?thesis by auto
  qed
qed

lemma round_even_of_int: "round_even (of_int k) = k"
  by (simp add: round_even_def)

lemma round_even_le: "m \<le> of_int K \<Longrightarrow> round_even m \<le> K"
proof -
  assume h: "m \<le> of_int K"
  have "of_int (round_even m) \<le> m + 1 / 2"
    using round_even_near [of m] by linarith
  with h have "(of_int (round_even m) :: rat) < of_int K + 1"
    by linarith
  then have "(of_int (round_even m) :: rat) < of_int (K + 1)"
    by simp
  then have "round_even m < K + 1"
    by (simp only: of_int_less_iff)
  then show ?thesis by simp
qed

lemma round_even_nonneg: "0 \<le> m \<Longrightarrow> 0 \<le> round_even m"
proof -
  assume h: "0 \<le> m"
  have "m - 1 / 2 \<le> of_int (round_even m)"
    using round_even_near [of m] by linarith
  with h have "(of_int (- 1) :: rat) < of_int (round_even m)"
    by simp
  then have "- 1 < round_even m"
    by (simp only: of_int_less_iff)
  then show ?thesis by simp
qed

lemma pow2_less_imp: "(2::rat) powi m < 2 powi n \<Longrightarrow> m < n"
proof (rule ccontr)
  assume a: "(2::rat) powi m < 2 powi n" and "\<not> m < n"
  then have "n \<le> m" by simp
  then have "(2::rat) powi n \<le> 2 powi m"
    by (rule power_int_increasing) simp
  with a show False by simp
qed

lemma ilog2_range:
  assumes "0 < a" and "2 powi lo \<le> a" and "a < 2 powi hi"
  shows "lo \<le> ilog2 a \<and> ilog2 a < hi"
proof -
  from ilog2_bounds [OF assms(1)] have b: "2 powi (ilog2 a) \<le> a" "a < 2 powi (ilog2 a + 1)"
    by simp_all
  from assms(2) b(2) have "(2::rat) powi lo < 2 powi (ilog2 a + 1)" by simp
  then have "lo < ilog2 a + 1" by (rule pow2_less_imp)
  moreover from b(1) assms(3) have "(2::rat) powi (ilog2 a) < 2 powi hi" by simp
  then have "ilog2 a < hi" by (rule pow2_less_imp)
  ultimately show ?thesis by simp
qed


lemma nearest_double_int:
  assumes "0 < n" and "n < 2 ^ 53"
  shows "nearest_double (of_int n) = Num (of_int n)"
    and "nearest_double (- of_int n) = Num (- of_int n)"
proof -
  define a :: rat where "a = of_int n"
  define e where "e = ilog2 a"
  define q :: rat where "q = 2 powi (e - 52)"
  have apos: "0 < a" using assms(1) by (simp add: a_def)
  have lo: "(2::rat) powi 0 \<le> a" using assms(1) by (simp add: a_def)
  have "a < of_int (2 ^ 53)" unfolding a_def using assms(2) by (simp only: of_int_less_iff)
  then have hi: "a < 2 powi 53" by simp
  from ilog2_range [OF apos lo hi] have er: "0 \<le> e" "e < 53"
    by (simp_all add: e_def)
  then have q: "q = 1 / 2 ^ nat (52 - e)"
    by (simp add: q_def power_int_def inverse_eq_divide power_one_over)
  have "a / q = of_int (n * 2 ^ nat (52 - e))"
    by (simp add: q a_def)
  then have r: "round_even (a / q) = n * 2 ^ nat (52 - e)"
    by (simp only: round_even_of_int)
  have z: "of_int (round_even (a / q)) * q = a"
    unfolding r by (simp add: q a_def)
  have abs: "\<bar>a\<bar> = a" "\<bar>- a\<bar> = a" using apos by simp_all
  have ne: "a \<noteq> 0" "\<not> a < 0" "- a < 0" using apos by simp_all
  from er have mx: "max e (- 1022) = e" "\<not> 1023 < e" "e \<noteq> 1023" by simp_all
  show "nearest_double (of_int n) = Num (of_int n)"
    unfolding a_def [symmetric]
    using ne by (simp add: nearest_double_def Let_def abs e_def [symmetric] mx q_def [symmetric] z)
  show "nearest_double (- of_int n) = Num (- of_int n)"
    unfolding a_def [symmetric]
    using ne by (simp add: nearest_double_def Let_def abs e_def [symmetric] mx q_def [symmetric] z)
qed


text \<open>The model of the rounding agrees with the doubles of the decimals used below.\<close>

lemma nearest_double_examples:
  "nearest_double (4645 / 100) = Num (3268628167052493 / 70368744177664)"
  "nearest_double (13 / 100) = Num (1170935903116329 / 9007199254740992)"
  "nearest_double (1 / 10) = Num (3602879701896397 / 36028797018963968)"
  "nearest_double (12 / 5) = Num (5404319552844595 / 2251799813685248)"
  "nearest_double 9007199254740993 = Num 9007199254740992"
  "nearest_double (- 1 / 2) = Num (- 1 / 2)"
  by code_simp+

section \<open>The UDP sink: what \<^verbatim>\<open>sendStats\<close> sends and returns\<close>


lemma send_each_no_throw:
  "\<forall>q m e. flt q m \<noteq> Some (Throws e) \<Longrightarrow> fst (send_each flt ms p) = Inr ()"
proof (induction ms arbitrary: p)
  case Nil
  show ?case by simp
next
  case (Cons m ms)
  show ?case
  proof (cases "flt p m")
    case None
    with Cons show ?thesis by (simp add: port_send_def)
  next
    case (Some f)
    with Cons show ?thesis by (cases f) (simp_all add: port_send_def)
  qed
qed

text \<open>
  A sequence of sends hands the port an initial part of the messages, all of them
  unless a send throws, and stops at the first send that throws.
\<close>

lemma send_each_prefix:
  "send_each flt ms p = (r, p') \<Longrightarrow>
     \<exists>k\<le>length ms. sent p' = sent p @ take k ms \<and> closeCalls p' = closeCalls p \<and>
       (case r of
          Inr u \<Rightarrow> k = length ms
        | Inl e \<Rightarrow> k < length ms \<and>
            (\<exists>q. sent q = sent p @ take k ms \<and> flt q (ms ! k) = Some (Throws e)))"
proof (induction ms arbitrary: p)
  case Nil
  then show ?case by auto
next
  case (Cons m ms)
  have step: ?case
    if p1: "sent p1 = sent p @ [m]" "closeCalls p1 = closeCalls p"
      and run: "send_each flt ms p1 = (r, p')" for p1
  proof -
    from Cons.IH [OF run] obtain k where
      k: "k \<le> length ms" "sent p' = sent p1 @ take k ms" "closeCalls p' = closeCalls p1"
        "case r of Inr u \<Rightarrow> k = length ms
         | Inl e \<Rightarrow> k < length ms \<and>
             (\<exists>q. sent q = sent p1 @ take k ms \<and> flt q (ms ! k) = Some (Throws e))"
      by blast
    show ?thesis
    proof (intro exI [of _ "Suc k"] conjI)
      show "Suc k \<le> length (m # ms)" using k(1) by simp
      show "sent p' = sent p @ take (Suc k) (m # ms)" using k(2) p1(1) by simp
      show "closeCalls p' = closeCalls p" using k(3) p1(2) by simp
      show "case r of Inr u \<Rightarrow> Suc k = length (m # ms)
         | Inl e \<Rightarrow> Suc k < length (m # ms) \<and>
             (\<exists>q. sent q = sent p @ take (Suc k) (m # ms) \<and>
                  flt q ((m # ms) ! Suc k) = Some (Throws e))"
        using k(4) p1(1) by (cases r) auto
    qed
  qed
  show ?case
  proof (cases "flt p m")
    case None
    with Cons.prems have "send_each flt ms (p\<lparr>sent := sent p @ [m]\<rparr>) = (r, p')"
      by (simp add: port_send_def)
    then show ?thesis by (rule step [rotated 2]) simp_all
  next
    case (Some f)
    show ?thesis
    proof (cases f)
      case (Throws e)
      with Some Cons.prems have "p' = p" "r = Inl e"
        by (simp_all add: port_send_def)
      with Some Throws show ?thesis
        by (intro exI [of _ 0]) auto
    next
      case (Emits msg)
      with Some Cons.prems
      have "send_each flt ms (p\<lparr>sent := sent p @ [m],
              errorLog := errorLog p @ [''OSC Error: '' @ msg]\<rparr>) = (r, p')"
        by (simp add: port_send_def)
      then show ?thesis by (rule step [rotated 2]) simp_all
    qed
  qed
qed

lemma sendStats_Some:
  "\<exists>res p' k. sendStats flt now stats (Some p) = (Inr res, Some p') \<and>
      k \<le> length (osc_batch stats) \<and> sent p' = sent p @ take k (osc_batch stats) \<and>
      closeCalls p' = closeCalls p \<and>
      (k < length (osc_batch stats) \<longrightarrow>
         (\<exists>q e. sent q = sent p @ take k (osc_batch stats) \<and>
                flt q (osc_batch stats ! k) = Some (Throws e)))"
proof -
  obtain r p' where sp: "send_each flt (osc_batch stats) p = (r, p')"
    by (cases "send_each flt (osc_batch stats) p")
  from send_each_prefix [OF sp] obtain k where
    k: "k \<le> length (osc_batch stats)" "sent p' = sent p @ take k (osc_batch stats)"
      "closeCalls p' = closeCalls p"
      "case r of Inr u \<Rightarrow> k = length (osc_batch stats)
       | Inl e \<Rightarrow> k < length (osc_batch stats) \<and>
           (\<exists>q. sent q = sent p @ take k (osc_batch stats) \<and>
                flt q (osc_batch stats ! k) = Some (Throws e))"
    by blast
  from sp obtain res where res: "sendStats flt now stats (Some p) = (Inr res, Some p')"
    by (cases r) (simp_all add: sendStats_def sendStats_try_def)
  from k(4) have "k < length (osc_batch stats) \<longrightarrow>
         (\<exists>q e. sent q = sent p @ take k (osc_batch stats) \<and>
                flt q (osc_batch stats ! k) = Some (Throws e))"
    by (cases r) auto
  with res k(1-3) show ?thesis by blast
qed

lemma failing_send_try:
  "fst (sendStats_try failing_send example_stats (Some new_port)) = Inl (Error ''send EMSGSIZE'')"
  by (simp add: sendStats_try_def failing_send_def osc_batch_def port_send_def split: prod.splits)

text \<open>
  Claim C9. When the port handle is still \<^verbatim>\<open>null\<close>, \<^verbatim>\<open>sendStats\<close> sends nothing
  (there is no port, and none afterwards) and does not throw: it returns the failure
  result whose error detail is \<^verbatim>\<open>OSC port not initialized\<close>, for every snapshot.
\<close>

theorem sendStats_port_null:
  "sendStats flt now stats None =
     (Inr \<lparr>success = False, status = ''ERROR'', error = Some ''OSC port not initialized'',
           timestamp = now\<rparr>, None)"
  by (simp add: sendStats_def sendStats_try_def errorMessage_def)

text \<open>
  Claim C3, as amended. \<^verbatim>\<open>sendStats\<close> never throws: for every snapshot, every port
  and every way a \<^verbatim>\<open>send\<close> can fail, the UDP sink returns a \<^verbatim>\<open>SendResult\<close>, and
  whenever its \<^verbatim>\<open>try\<close> block fails with a thrown \<open>e\<close> (the port is not
  initialised, or a \<^verbatim>\<open>send\<close> throws) the result is the failure result that carries
  the message of \<open>e\<close>; the same holds for the HTTP POST variant and every outcome of the
  request. A failure that the port reports through its \<^verbatim>\<open>'error'\<close> event is not
  captured: when no \<^verbatim>\<open>send\<close> throws, the result is the success result \<^verbatim>\<open>OK\<close>,
  whatever events the port emits.
\<close>

theorem sendStats_never_throws:
  "(\<exists>r. fst (sendStats flt now stats port) = Inr r \<and>
        (\<forall>e. fst (sendStats_try flt stats port) = Inl e \<longrightarrow>
             r = \<lparr>success = False, status = ''ERROR'', error = Some (errorMessage e),
                  timestamp = now\<rparr>))
   \<and> (\<exists>r. sendStats_http out now stats = Inr r \<and>
        ((\<forall>st. out \<noteq> Responded st) \<longrightarrow>
             r = \<lparr>success = False, status = ''ERROR'', error = Some (http_errorMessage out),
                  timestamp = now, statusCode = None\<rparr>))
   \<and> ((\<forall>q m e. flt q m \<noteq> Some (Throws e)) \<longrightarrow>
        fst (sendStats flt now stats (Some p)) =
          Inr \<lparr>success = True, status = ''OK'', error = None, timestamp = now\<rparr>)"
proof (intro conjI impI)
  show "\<exists>r. fst (sendStats flt now stats port) = Inr r \<and>
        (\<forall>e. fst (sendStats_try flt stats port) = Inl e \<longrightarrow>
             r = \<lparr>success = False, status = ''ERROR'', error = Some (errorMessage e),
                  timestamp = now\<rparr>)"
    by (cases "sendStats_try flt stats port") (auto simp: sendStats_def split: sum.splits)
next
  show "\<exists>r. sendStats_http out now stats = Inr r \<and>
        ((\<forall>st. out \<noteq> Responded st) \<longrightarrow>
             r = \<lparr>success = False, status = ''ERROR'', error = Some (http_errorMessage out),
                  timestamp = now, statusCode = None\<rparr>)"
    by (cases out) (simp_all add: sendStats_http_def)
next
  assume "\<forall>q m e. flt q m \<noteq> Some (Throws e)"
  then have "fst (send_each flt (osc_batch stats) p) = Inr ()"
    by (rule send_each_no_throw)
  then show "fst (sendStats flt now stats (Some p)) =
          Inr \<lparr>success = True, status = ''OK'', error = None, timestamp = now\<rparr>"
    by (cases "send_each flt (osc_batch stats) p") (simp add: sendStats_def sendStats_try_def)
qed

text \<open>
  Witness of C3 as amended: a port whose third \<^verbatim>\<open>send\<close> throws, a request that
  reaches no server, and a port that only emits \<^verbatim>\<open>'error'\<close> events.
\<close>

theorem sendStats_never_throws_witness:
  "fst (sendStats_try failing_send example_stats (Some new_port)) = Inl (Error ''send EMSGSIZE'')
   \<and> fst (sendStats failing_send ''t2'' example_stats (Some new_port)) =
       Inr \<lparr>success = False, status = ''ERROR'', error = Some ''send EMSGSIZE'',
            timestamp = ''t2''\<rparr>
   \<and> sendStats_http AxiosRequestError ''t2'' example_stats =
       Inr \<lparr>success = False, status = ''ERROR'',
            error = Some ''Network error - Unable to reach target'', timestamp = ''t2'',
            statusCode = None\<rparr>
   \<and> (\<forall>q m e. emitting_send q m \<noteq> Some (Throws e))
   \<and> fst (sendStats emitting_send ''t2'' example_stats (Some new_port)) =
       Inr \<lparr>success = True, status = ''OK'', error = None, timestamp = ''t2''\<rparr>"
proof -
  note h = failing_send_try
  from sendStats_never_throws [of failing_send "''t2''" example_stats "Some new_port"
      AxiosRequestError]
  obtain r r' where
    r: "fst (sendStats failing_send ''t2'' example_stats (Some new_port)) = Inr r"
       "\<forall>e. fst (sendStats_try failing_send example_stats (Some new_port)) = Inl e \<longrightarrow>
          r = \<lparr>success = False, status = ''ERROR'', error = Some (errorMessage e),
               timestamp = ''t2''\<rparr>"
    and r': "sendStats_http AxiosRequestError ''t2'' example_stats = Inr r'"
       "(\<forall>st. AxiosRequestError \<noteq> Responded st) \<longrightarrow>
          r' = \<lparr>success = False, status = ''ERROR'',
                error = Some (http_errorMessage AxiosRequestError), timestamp = ''t2'',
                statusCode = None\<rparr>"
    by blast
  from r h have "r = \<lparr>success = False, status = ''ERROR'', error = Some ''send EMSGSIZE'',
                      timestamp = ''t2''\<rparr>"
    by (simp add: errorMessage_def)
  moreover from r' have "r' = \<lparr>success = False, status = ''ERROR'',
            error = Some ''Network error - Unable to reach target'', timestamp = ''t2'',
            statusCode = None\<rparr>"
    by (simp add: http_errorMessage_def)
  moreover have e: "\<forall>q m e. emitting_send q m \<noteq> Some (Throws e)"
    by (simp add: emitting_send_def)
  moreover from sendStats_never_throws [of emitting_send "''t2''" example_stats "Some new_port"
      AxiosRequestError new_port] e
  have "fst (sendStats emitting_send ''t2'' example_stats (Some new_port)) =
       Inr \<lparr>success = True, status = ''OK'', error = None, timestamp = ''t2''\<rparr>"
    by blast
  ultimately show ?thesis using h r(1) r'(1) by simp
qed

text \<open>
  Counterexample to C3 as stated. The target cannot be reached and the port emits an
  \<^verbatim>\<open>'error'\<close> event for each of the 17 messages of the ten-core example: the handler
  writes 17 lines with \<^verbatim>\<open>console.error\<close>, and \<^verbatim>\<open>sendStats\<close> returns the success
  result \<^verbatim>\<open>OK\<close> with no error detail.
\<close>

theorem sendStats_error_event_counterexample:
  "fst (sendStats emitting_send ''t2'' example_stats (Some new_port)) =
     Inr \<lparr>success = True, status = ''OK'', error = None, timestamp = ''t2''\<rparr>
   \<and> map_option (length \<circ> errorLog)
        (snd (sendStats emitting_send ''t2'' example_stats (Some new_port))) = Some 17
   \<and> map_option (hd \<circ> errorLog)
        (snd (sendStats emitting_send ''t2'' example_stats (Some new_port))) =
       Some ''OSC Error: send ENETUNREACH''"
  by (simp add: sendStats_def sendStats_try_def osc_batch_def example_stats_def new_port_def
      emitting_send_def port_send_def)





section \<open>The collector: when it fails and what it returns\<close>








lemma fixed2_Inr: "fixed2 v = Inr y \<longleftrightarrow> (\<exists>x. v = Some x \<and> y = parseFloat_toFixed2 x)"
  by (auto simp: fixed2_def split: option.splits)

lemma fixed2_isl: "isl (fixed2 v) \<longleftrightarrow> v = None"
  by (simp add: fixed2_def split: option.splits)


lemma ex_Inr_iff: "(\<exists>y. r = Inr y) \<longleftrightarrow> \<not> isl r"
  by (cases r) simp_all

lemma bind_r_Inr: "bind_r r f = Inr y \<longleftrightarrow> (\<exists>x. r = Inr x \<and> f x = Inr y)"
  by (cases r) (simp_all add: bind_r_def)

lemma map_r_Inr: "map_r f xs = Inr ys \<longleftrightarrow> list_all2 (\<lambda>x y. f x = Inr y) xs ys"
proof (induction xs arbitrary: ys)
  case Nil
  show ?case by auto
next
  case (Cons x xs)
  show ?case
    by (cases ys) (auto simp: bind_r_Inr Cons.IH)
qed

lemma core_stats_Inr:
  "core_stats (i, c) = Inr r \<longleftrightarrow>
     (\<exists>l lu ls li. fixed2 (si_load c) = Inr l \<and> fixed2 (si_loadUser c) = Inr lu \<and>
        fixed2 (si_loadSystem c) = Inr ls \<and> fixed2 (si_loadIdle c) = Inr li \<and>
        r = \<lparr>core = i, load = l, loadUser = lu, loadSystem = ls, loadIdle = li\<rparr>)"
  by (auto simp: core_stats_def bind_r_Inr)

lemma core_stats_ok:
  "(\<exists>r. core_stats (i, c) = Inr r) \<longleftrightarrow>
     (si_load c \<noteq> None \<and> si_loadUser c \<noteq> None \<and> si_loadSystem c \<noteq> None \<and> si_loadIdle c \<noteq> None)"
  by (auto simp: core_stats_Inr fixed2_Inr)

lemma collect_try_Inr:
  "collect_try now host loadR cpuR = Inr st \<longleftrightarrow>
     (\<exists>cl ci t u s i pc. loadR = Inr cl \<and> cpuR = Inr ci \<and>
        fixed2 (currentLoad cl) = Inr t \<and> fixed2 (currentLoadUser cl) = Inr u \<and>
        fixed2 (currentLoadSystem cl) = Inr s \<and> fixed2 (currentLoadIdle cl) = Inr i \<and>
        list_all2 (\<lambda>x y. core_stats x = Inr y) (enumerate 0 (cpus cl)) pc \<and>
        st = \<lparr>CPUStats.timestamp = now, hostname = host,
            cpu = \<lparr>model = brand ci, cores = si_cores ci, speed = si_speed ci\<rparr>,
            usage = \<lparr>total = t, user = u, system = s, idle = i\<rparr>,
            perCore = pc\<rparr>)"
  unfolding collect_try_def bind_r_Inr map_r_Inr by blast

lemma collectCPUStats_Inr:
  "collectCPUStats now host loadR cpuR = Inr st \<longleftrightarrow> collect_try now host loadR cpuR = Inr st"
  by (simp add: collectCPUStats_def split: sum.splits)

lemma ex_list_all2:
  "(\<exists>ys. list_all2 (\<lambda>x y. f x = Inr y) xs ys) \<longleftrightarrow> list_all (\<lambda>x. \<exists>y. f x = Inr y) xs"
proof (induction xs)
  case Nil
  show ?case by simp
next
  case (Cons x xs)
  show ?case
    by (auto simp: list_all2_Cons1 Cons.IH [symmetric])
qed

lemma list_all_enumerate:
  "list_all (\<lambda>x. P (snd x)) (enumerate n xs) \<longleftrightarrow> list_all P xs"
  by (induction xs arbitrary: n) simp_all

lemma per_core_ok:
  "(\<exists>pc. list_all2 (\<lambda>x y. core_stats x = Inr y) (enumerate 0 cs) pc) \<longleftrightarrow>
     list_all (\<lambda>c. si_load c \<noteq> None \<and> si_loadUser c \<noteq> None \<and> si_loadSystem c \<noteq> None \<and>
                   si_loadIdle c \<noteq> None) cs"
proof -
  have "(\<lambda>x. \<exists>y. core_stats x = Inr y) =
        (\<lambda>x. (\<lambda>c. si_load c \<noteq> None \<and> si_loadUser c \<noteq> None \<and> si_loadSystem c \<noteq> None \<and>
                   si_loadIdle c \<noteq> None) (snd x))"
  proof (rule ext)
    fix x :: "nat \<times> CurrentLoadCpuData"
    show "(\<exists>y. core_stats x = Inr y) =
        (si_load (snd x) \<noteq> None \<and> si_loadUser (snd x) \<noteq> None \<and> si_loadSystem (snd x) \<noteq> None \<and>
                   si_loadIdle (snd x) \<noteq> None)"
      by (cases x) (simp only: core_stats_ok snd_conv)
  qed
  then show ?thesis
    unfolding ex_list_all2
    using list_all_enumerate [of "\<lambda>c. si_load c \<noteq> None \<and> si_loadUser c \<noteq> None \<and>
      si_loadSystem c \<noteq> None \<and> si_loadIdle c \<noteq> None" 0 cs]
    by simp
qed

lemma per_core_indices:
  "list_all2 (\<lambda>x y. core_stats x = Inr y) (enumerate n cs) pc \<Longrightarrow>
     map core pc = [n..<n + length cs]"
proof (induction cs arbitrary: n pc)
  case Nil
  then show ?case by simp
next
  case (Cons c cs)
  from Cons.prems obtain r rs where pc: "pc = r # rs" and r: "core_stats (n, c) = Inr r"
    and rs: "list_all2 (\<lambda>x y. core_stats x = Inr y) (enumerate (Suc n) cs) rs"
    by (auto simp: list_all2_Cons1)
  from r have "core r = n" by (auto simp: core_stats_Inr)
  moreover have "[n..<n + length (c # cs)] = n # [Suc n..<Suc n + length cs]"
    by (simp add: upt_rec)
  ultimately show ?case using Cons.IH [OF rs] pc by simp
qed


lemma collect_ok_iff:
  "(\<exists>st. collect_try now host (Inr cl) (Inr ci) = Inr st) \<longleftrightarrow> percentages_present cl"
proof -
  have "(\<exists>st. collect_try now host (Inr cl) (Inr ci) = Inr st) \<longleftrightarrow>
        ((\<exists>t. fixed2 (currentLoad cl) = Inr t) \<and> (\<exists>u. fixed2 (currentLoadUser cl) = Inr u) \<and>
         (\<exists>s. fixed2 (currentLoadSystem cl) = Inr s) \<and> (\<exists>i. fixed2 (currentLoadIdle cl) = Inr i) \<and>
         (\<exists>pc. list_all2 (\<lambda>x y. core_stats x = Inr y) (enumerate 0 (cpus cl)) pc))"
    unfolding collect_try_Inr by blast
  then show ?thesis
    by (simp add: per_core_ok percentages_present_def ex_Inr_iff fixed2_isl)
qed

lemma example_collect:
  "collectCPUStats ''t1'' ''studio'' (Inr example_load) (Inr example_cpu) = Inr (example_snapshot 2)"
  by code_simp

text \<open>
  Claim C4, as amended. \<^verbatim>\<open>collectCPUStats\<close> fails, with an error whose message starts
  with \<^verbatim>\<open>Failed to collect CPU stats: \<close>, when a host query fails, and, when both
  queries answer, exactly when a percentage field is missing. It compares nothing and
  checks no sign: every snapshot it returns has as many \<^verbatim>\<open>perCore\<close> entries as the
  host's per-core list, numbered 0, 1, ... in order, and the core count the hardware
  query reported.
\<close>

theorem collectCPUStats_failure_modes:
  "collectCPUStats now host (Inl e) cpuR =
      Inl (Error (''Failed to collect CPU stats: '' @ errorMessage e))
   \<and> collectCPUStats now host (Inr cl) (Inl e) =
      Inl (Error (''Failed to collect CPU stats: '' @ errorMessage e))
   \<and> (isl (collectCPUStats now host (Inr cl) (Inr ci)) \<longleftrightarrow> \<not> percentages_present cl)
   \<and> (\<forall>st. collectCPUStats now host (Inr cl) (Inr ci) = Inr st \<longrightarrow>
         length (perCore st) = length (cpus cl) \<and>
         map core (perCore st) = [0..<length (cpus cl)] \<and>
         cores (cpu st) = si_cores ci)"
proof (intro conjI allI impI)
  show "collectCPUStats now host (Inl e) cpuR =
      Inl (Error (''Failed to collect CPU stats: '' @ errorMessage e))"
    by (simp add: collectCPUStats_def collect_try_def bind_r_def)
  show "collectCPUStats now host (Inr cl) (Inl e) =
      Inl (Error (''Failed to collect CPU stats: '' @ errorMessage e))"
    by (simp add: collectCPUStats_def collect_try_def bind_r_def)
  have "\<not> isl (collectCPUStats now host (Inr cl) (Inr ci)) \<longleftrightarrow> percentages_present cl"
    unfolding ex_Inr_iff [symmetric] collectCPUStats_Inr by (rule collect_ok_iff)
  then show "isl (collectCPUStats now host (Inr cl) (Inr ci)) \<longleftrightarrow> \<not> percentages_present cl"
    by blast
next
  fix st
  assume "collectCPUStats now host (Inr cl) (Inr ci) = Inr st"
  then obtain pc where pc: "list_all2 (\<lambda>x y. core_stats x = Inr y) (enumerate 0 (cpus cl)) pc"
    and st: "perCore st = pc" "cores (cpu st) = si_cores ci"
    by (auto simp: collectCPUStats_Inr collect_try_Inr)
  from pc have "length pc = length (cpus cl)"
    by (auto dest: list_all2_lengthD)
  with per_core_indices [OF pc] st
  show "length (perCore st) = length (cpus cl)"
    and "map core (perCore st) = [0..<length (cpus cl)]"
    and "cores (cpu st) = si_cores ci"
    by simp_all
qed

text \<open>
  Witness of C4 as amended: the example host gives a snapshot of two entries, and the
  same host with the idle percentage missing makes the collector fail.
\<close>

theorem collectCPUStats_failure_modes_witness:
  "collectCPUStats ''t1'' ''studio'' (Inr example_load) (Inr example_cpu) = Inr (example_snapshot 2)
   \<and> length (perCore (example_snapshot 2)) = 2
   \<and> map core (perCore (example_snapshot 2)) = [0, 1]
   \<and> \<not> percentages_present (example_load\<lparr>currentLoadIdle := None\<rparr>)
   \<and> isl (collectCPUStats ''t1'' ''studio'' (Inr (example_load\<lparr>currentLoadIdle := None\<rparr>))
            (Inr example_cpu))"
proof -
  note h = example_collect
  have n: "length (cpus example_load) = 2"
    by (simp add: example_load_def)
  have m: "\<not> percentages_present (example_load\<lparr>currentLoadIdle := None\<rparr>)"
    by (simp add: percentages_present_def)
  from collectCPUStats_failure_modes [of "''t1''" "''studio''" NonError "Inr example_cpu"
      example_load example_cpu] h
  have "length (perCore (example_snapshot 2)) = length (cpus example_load)"
    and "map core (perCore (example_snapshot 2)) = [0..<length (cpus example_load)]"
    by blast+
  moreover
  from collectCPUStats_failure_modes [of "''t1''" "''studio''" NonError "Inr example_cpu"
      "example_load\<lparr>currentLoadIdle := None\<rparr>" example_cpu] m
  have "isl (collectCPUStats ''t1'' ''studio'' (Inr (example_load\<lparr>currentLoadIdle := None\<rparr>))
            (Inr example_cpu))"
    by blast
  ultimately show ?thesis using h n m
    by (simp add: upt_rec)
qed

text \<open>
  Counterexample to C4 as stated. A host whose hardware query reports four cores and
  whose load query lists two gets a snapshot, with two \<^verbatim>\<open>perCore\<close> entries and core
  count 4; a host that reports a negative idle percentage gets a snapshot that carries
  it.
\<close>

theorem collectCPUStats_unvalidated_counterexample:
  "collectCPUStats ''t1'' ''studio'' (Inr example_load) (Inr four_core_cpu) =
     Inr (example_snapshot 4)
   \<and> length (perCore (example_snapshot 4)) = 2
   \<and> cores (cpu (example_snapshot 4)) = 4
   \<and> \<not> isl (collectCPUStats ''t1'' ''studio'' (Inr negative_load) (Inr example_cpu))
   \<and> idle (usage (projr (collectCPUStats ''t1'' ''studio'' (Inr negative_load) (Inr example_cpu))))
       = Num (- 1 / 2)"
proof (intro conjI)
  show "collectCPUStats ''t1'' ''studio'' (Inr example_load) (Inr four_core_cpu) =
     Inr (example_snapshot 4)"
    by code_simp
  show "length (perCore (example_snapshot 4)) = 2"
    by (simp add: example_snapshot_def)
  show "cores (cpu (example_snapshot 4)) = 4"
    by (simp add: example_snapshot_def)
  show "\<not> isl (collectCPUStats ''t1'' ''studio'' (Inr negative_load) (Inr example_cpu))"
    by code_simp
  show "idle (usage (projr (collectCPUStats ''t1'' ''studio'' (Inr negative_load) (Inr example_cpu))))
       = Num (- 1 / 2)"
    by code_simp
qed




section \<open>The scheduler: ticks, failed collections and shutdown\<close>

lemma monitor_catch_fields:
  "oscPort (monitor_catch now e s) = oscPort s"
  "isMounted (monitor_catch now e s) = isMounted s"
  "inflight (monitor_catch now e s) = inflight s"
  "started (monitor_catch now e s) = started s"
  "intervalActive (monitor_catch now e s) = intervalActive s"
  "intervalDelay (monitor_catch now e s) = intervalDelay s"
  "intervalMs (monitor_catch now e s) = intervalMs s"
  "exited (monitor_catch now e s) = exited s"
  "cpuStats (monitor_catch now e s) = cpuStats s"
  by (simp_all add: monitor_catch_def)

lemma monitor_resume_fields:
  "isMounted (monitor_resume flt now r s) = isMounted s"
  "inflight (monitor_resume flt now r s) = inflight s"
  "started (monitor_resume flt now r s) = started s"
  "intervalActive (monitor_resume flt now r s) = intervalActive s"
  "intervalDelay (monitor_resume flt now r s) = intervalDelay s"
  "intervalMs (monitor_resume flt now r s) = intervalMs s"
  "exited (monitor_resume flt now r s) = exited s"
  by (auto simp: monitor_resume_def monitor_catch_def Let_def split: sum.splits prod.splits)

text \<open>
  What the rest of \<^verbatim>\<open>monitor\<close> does to the port: nothing after a failed collection;
  after a successful one it hands the port an initial part of the snapshot's batch, all
  of it unless a send throws.
\<close>

lemma monitor_resume_port:
  "oscPort s = Some p \<Longrightarrow>
     \<exists>p'. oscPort (monitor_resume flt now r s) = Some p' \<and> closeCalls p' = closeCalls p \<and>
       (case r of
          Inl e \<Rightarrow> p' = p
        | Inr st \<Rightarrow>
            (\<exists>k\<le>length (osc_batch st). sent p' = sent p @ take k (osc_batch st) \<and>
               (k < length (osc_batch st) \<longrightarrow>
                  (\<exists>q e. sent q = sent p @ take k (osc_batch st) \<and>
                         flt q (osc_batch st ! k) = Some (Throws e)))))"
proof (cases r)
  case (Inl e)
  assume "oscPort s = Some p"
  with Inl show ?thesis
    by (simp add: monitor_resume_def monitor_catch_fields)
next
  case (Inr st)
  assume p: "oscPort s = Some p"
  from sendStats_Some [of flt now st p] obtain res p' k where
    k: "sendStats flt now st (Some p) = (Inr res, Some p')"
      "k \<le> length (osc_batch st)" "sent p' = sent p @ take k (osc_batch st)"
      "closeCalls p' = closeCalls p"
      "k < length (osc_batch st) \<longrightarrow>
         (\<exists>q e. sent q = sent p @ take k (osc_batch st) \<and>
                flt q (osc_batch st ! k) = Some (Throws e))"
    by blast
  from p k(1) have "oscPort (monitor_resume flt now (Inr st) s) = Some p'"
    by (auto simp: monitor_resume_def Let_def)
  with Inr k(2-5) show ?thesis
    by auto
qed

lemma monitor_resume_port_None:
  "oscPort s = None \<Longrightarrow> oscPort (monitor_resume flt now r s) = None"
  by (cases r)
    (simp_all add: monitor_resume_def monitor_catch_fields Let_def sendStats_def sendStats_try_def)

lemma run_ticks:
  "\<not> exited s \<Longrightarrow> intervalActive s \<Longrightarrow>
     inflight (run flt s (replicate k Tick)) = inflight s @ [started s..<started s + k]"
proof (induction k arbitrary: s)
  case 0
  then show ?case by (simp add: run_def)
next
  case (Suc k)
  let ?s = "start_monitor s"
  from Suc.prems have st: "app_step flt s Tick = ?s"
    by (simp add: app_step_def)
  from Suc.prems have "\<not> exited ?s" "intervalActive ?s"
    by (simp_all add: start_monitor_def)
  from Suc.IH [OF this]
  have "inflight (run flt ?s (replicate k Tick)) = inflight ?s @ [started ?s..<started ?s + k]" .
  with st show ?case
    by (simp add: run_def start_monitor_def upt_rec [of "started s"])
qed


lemma port_inv_step: "port_inv s \<Longrightarrow> port_inv (app_step flt s ev)"
proof (cases "exited s")
  case True
  assume "port_inv s"
  with True show ?thesis by (simp add: app_step_def)
next
  case False
  assume inv: "port_inv s"
  show ?thesis
  proof (cases ev)
    case Mount
    with False inv show ?thesis
      by (simp add: app_step_def port_inv_def mountEffect_def start_monitor_def initializeOSC_def)
  next
    case Tick
    with False inv show ?thesis
      by (auto simp: app_step_def port_inv_def start_monitor_def split: option.splits)
  next
    case (CollectSettled i now host loadR cpuR)
    let ?s = "s\<lparr>inflight := remove1 i (inflight s)\<rparr>"
    let ?r = "collectCPUStats now host loadR cpuR"
    have "port_inv (monitor_resume flt now ?r ?s)"
    proof (cases "oscPort s")
      case None
      then have "oscPort (monitor_resume flt now ?r ?s) = None"
        by (simp add: monitor_resume_port_None)
      with None inv False show ?thesis
        by (auto simp: port_inv_def monitor_resume_fields)
    next
      case (Some p)
      then have "oscPort ?s = Some p" by simp
      from monitor_resume_port [OF this, of flt now ?r] obtain p' where
        "oscPort (monitor_resume flt now ?r ?s) = Some p'" "closeCalls p' = closeCalls p"
        by blast
      with Some inv False show ?thesis
        by (auto simp: port_inv_def monitor_resume_fields)
    qed
    with CollectSettled False inv show ?thesis
      by (simp add: app_step_def)
  next
    case Signal
    with False show ?thesis
      by (simp add: app_step_def port_inv_def shutdown_def)
  qed
qed

lemma port_inv_run: "port_inv s \<Longrightarrow> port_inv (run flt s evs)"
  unfolding run_def by (induction evs arbitrary: s) (simp_all add: port_inv_step)

lemma port_inv_initial: "port_inv (initialApp env t0)"
  by (simp add: port_inv_def initialApp_def)

lemma timer_inv_step: "timer_inv env s \<Longrightarrow> timer_inv env (app_step flt s ev)"
proof (cases "exited s")
  case True
  assume "timer_inv env s"
  with True show ?thesis by (simp add: app_step_def)
next
  case False
  assume inv: "timer_inv env s"
  show ?thesis
  proof (cases ev)
    case Mount
    with False inv show ?thesis
      by (simp add: app_step_def timer_inv_def mountEffect_def start_monitor_def)
  next
    case Tick
    with False inv show ?thesis
      by (simp add: app_step_def timer_inv_def start_monitor_def)
  next
    case (CollectSettled i now host loadR cpuR)
    with False inv show ?thesis
      by (simp add: app_step_def timer_inv_def monitor_resume_fields)
  next
    case Signal
    with False inv show ?thesis
      by (simp add: app_step_def timer_inv_def shutdown_def unmount_def effect_cleanup_def
          split: option.splits)
  qed
qed

lemma timer_inv_run: "timer_inv env s \<Longrightarrow> timer_inv env (run flt s evs)"
  unfolding run_def by (induction evs arbitrary: s) (simp_all add: timer_inv_step)

lemma timer_inv_initial: "timer_inv env (initialApp env t0)"
  by (simp add: timer_inv_def initialApp_def)

lemma mounted_app_fields:
  "\<not> exited mounted_app" "intervalActive mounted_app" "isMounted mounted_app"
  "inflight mounted_app = [0]" "started mounted_app = 1" "oscPort mounted_app = Some new_port"
  by (simp_all add: mounted_app_def mountEffect_def initialApp_def start_monitor_def
      initializeOSC_def new_port_def)

text \<open>
  Claim C1, as amended. While the interval timer is set, every tick starts a new cycle,
  whatever is in flight: the tick is neither skipped nor queued, the new cycle joins
  the ones in flight, and after the first run and \<open>k\<close> ticks with no collection settled
  \<open>k + 1\<close> cycles are in flight. A tick itself sends nothing. What does not overlap is
  the sending: \<^verbatim>\<open>sendStats\<close> never suspends, so the step in which the collection of
  a cycle in flight settles does all the sending of that cycle. After a failed
  collection it leaves the port as it was. After a successful one it hands the port,
  after what the port had been handed before, an initial part of that snapshot's batch:
  the whole batch when no \<^verbatim>\<open>send\<close> throws, and otherwise the messages before the first
  \<^verbatim>\<open>send\<close> that throws. A settlement for a cycle that is not in flight, or after
  the exit, changes nothing.
\<close>

theorem tick_starts_cycle_regardless:
  "(\<not> exited s \<and> intervalActive s \<longrightarrow>
       inflight (app_step flt s Tick) = inflight s @ [started s] \<and>
       oscPort (app_step flt s Tick) = oscPort s)
   \<and> length (inflight (run flt (mountEffect (initialApp env t0)) (replicate k Tick))) = k + 1
   \<and> (\<not> exited s \<and> i \<in> set (inflight s) \<and> oscPort s = Some p \<longrightarrow>
        (case collectCPUStats now host loadR cpuR of
           Inl e \<Rightarrow> oscPort (app_step flt s (CollectSettled i now host loadR cpuR)) = Some p
         | Inr st \<Rightarrow>
             (\<exists>p' n. oscPort (app_step flt s (CollectSettled i now host loadR cpuR)) = Some p' \<and>
                n \<le> length (osc_batch st) \<and> sent p' = sent p @ take n (osc_batch st) \<and>
                (n < length (osc_batch st) \<longrightarrow>
                   (\<exists>q e. sent q = sent p @ take n (osc_batch st) \<and>
                          flt q (osc_batch st ! n) = Some (Throws e))) \<and>
                ((\<forall>q m e. flt q m \<noteq> Some (Throws e)) \<longrightarrow>
                   sent p' = sent p @ osc_batch st))))
   \<and> (exited s \<or> i \<notin> set (inflight s) \<longrightarrow>
        app_step flt s (CollectSettled i now host loadR cpuR) = s)"
proof (intro conjI impI)
  assume "\<not> exited s \<and> intervalActive s"
  then show "inflight (app_step flt s Tick) = inflight s @ [started s]"
    and "oscPort (app_step flt s Tick) = oscPort s"
    by (simp_all add: app_step_def start_monitor_def)
next
  let ?s0 = "mountEffect (initialApp env t0)"
  have "\<not> exited ?s0" "intervalActive ?s0"
    by (simp_all add: mountEffect_def initialApp_def start_monitor_def)
  from run_ticks [OF this, of flt k]
  show "length (inflight (run flt ?s0 (replicate k Tick))) = k + 1"
    by (simp add: mountEffect_def initialApp_def start_monitor_def)
next
  assume a: "\<not> exited s \<and> i \<in> set (inflight s) \<and> oscPort s = Some p"
  let ?s = "s\<lparr>inflight := remove1 i (inflight s)\<rparr>"
  let ?r = "collectCPUStats now host loadR cpuR"
  let ?s' = "app_step flt s (CollectSettled i now host loadR cpuR)"
  from a have step: "?s' = monitor_resume flt now ?r ?s"
    by (simp add: app_step_def)
  from a have "oscPort ?s = Some p" by simp
  from monitor_resume_port [OF this, of flt now ?r] obtain p' where
    p': "oscPort (monitor_resume flt now ?r ?s) = Some p'"
      "case ?r of
          Inl e \<Rightarrow> p' = p
        | Inr st \<Rightarrow>
            (\<exists>k\<le>length (osc_batch st). sent p' = sent p @ take k (osc_batch st) \<and>
               (k < length (osc_batch st) \<longrightarrow>
                  (\<exists>q e. sent q = sent p @ take k (osc_batch st) \<and>
                         flt q (osc_batch st ! k) = Some (Throws e))))"
    by blast
  show "case ?r of
           Inl e \<Rightarrow> oscPort ?s' = Some p
         | Inr st \<Rightarrow>
             (\<exists>p' n. oscPort ?s' = Some p' \<and>
                n \<le> length (osc_batch st) \<and> sent p' = sent p @ take n (osc_batch st) \<and>
                (n < length (osc_batch st) \<longrightarrow>
                   (\<exists>q e. sent q = sent p @ take n (osc_batch st) \<and>
                          flt q (osc_batch st ! n) = Some (Throws e))) \<and>
                ((\<forall>q m e. flt q m \<noteq> Some (Throws e)) \<longrightarrow>
                   sent p' = sent p @ osc_batch st))"
  proof (cases ?r)
    case (Inl e)
    with p' show ?thesis unfolding step by simp
  next
    case (Inr st)
    with p'(2) obtain n where
      n: "n \<le> length (osc_batch st)" "sent p' = sent p @ take n (osc_batch st)"
        "n < length (osc_batch st) \<longrightarrow>
           (\<exists>q e. sent q = sent p @ take n (osc_batch st) \<and>
                  flt q (osc_batch st ! n) = Some (Throws e))"
      by auto
    have "(\<forall>q m e. flt q m \<noteq> Some (Throws e)) \<longrightarrow> sent p' = sent p @ osc_batch st"
    proof
      assume "\<forall>q m e. flt q m \<noteq> Some (Throws e)"
      with n(3) have "\<not> n < length (osc_batch st)" by blast
      with n(1,2) show "sent p' = sent p @ osc_batch st" by simp
    qed
    with Inr p'(1) n show ?thesis unfolding step by auto
  qed
next
  assume "exited s \<or> i \<notin> set (inflight s)"
  then show "app_step flt s (CollectSettled i now host loadR cpuR) = s"
    by (auto simp: app_step_def)
qed

text \<open>
  Witness of C1 as amended: right after the effect has run, cycle 0 is in flight; a tick
  starts cycle 1 beside it, and when the collection of cycle 0 settles with the example
  snapshot and no send fails, the port is handed exactly that snapshot's batch.
\<close>

theorem tick_starts_cycle_regardless_witness:
  "\<not> exited mounted_app \<and> intervalActive mounted_app \<and> oscPort mounted_app = Some new_port
   \<and> 0 \<in> set (inflight mounted_app)
   \<and> inflight (app_step no_fault mounted_app Tick) = [0, 1]
   \<and> collectCPUStats ''t1'' ''studio'' (Inr example_load) (Inr example_cpu) =
       Inr (example_snapshot 2)
   \<and> (\<forall>q m e. no_fault q m \<noteq> Some (Throws e))
   \<and> map_option sent (oscPort (app_step no_fault mounted_app
        (CollectSettled 0 ''t1'' ''studio'' (Inr example_load) (Inr example_cpu))))
       = Some (osc_batch (example_snapshot 2))"
proof -
  note f = mounted_app_fields
  note h = example_collect
  have nf: "\<forall>q m e. no_fault q m \<noteq> Some (Throws e)"
    by (simp add: no_fault_def)
  have i: "0 \<in> set (inflight mounted_app)"
    by (simp add: f)
  note t = tick_starts_cycle_regardless [of mounted_app no_fault None "''t0''" 0 0 new_port
      "''t1''" "''studio''" "Inr example_load" "Inr example_cpu"]
  from t f have a: "inflight (app_step no_fault mounted_app Tick) = [0, 1]"
    by simp
  from t f i have "case collectCPUStats ''t1'' ''studio'' (Inr example_load) (Inr example_cpu) of
           Inl e \<Rightarrow> oscPort (app_step no_fault mounted_app
              (CollectSettled 0 ''t1'' ''studio'' (Inr example_load) (Inr example_cpu))) = Some new_port
         | Inr st \<Rightarrow>
             (\<exists>p' n. oscPort (app_step no_fault mounted_app
                  (CollectSettled 0 ''t1'' ''studio'' (Inr example_load) (Inr example_cpu))) = Some p' \<and>
                n \<le> length (osc_batch st) \<and> sent p' = sent new_port @ take n (osc_batch st) \<and>
                (n < length (osc_batch st) \<longrightarrow>
                   (\<exists>q e. sent q = sent new_port @ take n (osc_batch st) \<and>
                          no_fault q (osc_batch st ! n) = Some (Throws e))) \<and>
                ((\<forall>q m e. no_fault q m \<noteq> Some (Throws e)) \<longrightarrow>
                   sent p' = sent new_port @ osc_batch st))"
    by blast
  with h nf obtain p' where
    "oscPort (app_step no_fault mounted_app
        (CollectSettled 0 ''t1'' ''studio'' (Inr example_load) (Inr example_cpu))) = Some p'"
    "sent p' = sent new_port @ osc_batch (example_snapshot 2)"
    by auto
  then have "map_option sent (oscPort (app_step no_fault mounted_app
        (CollectSettled 0 ''t1'' ''studio'' (Inr example_load) (Inr example_cpu))))
       = Some (osc_batch (example_snapshot 2))"
    by (simp add: new_port_def)
  with f i a h nf show ?thesis by blast
qed

text \<open>
  Counterexample to C1 as stated. Cycle 0, started by the effect, is still collecting
  when the timer fires: the tick starts cycle 1, and the next one cycle 2, so three
  cycles are in flight.
\<close>

theorem tick_overlap_counterexample:
  "inflight mounted_app = [0]
   \<and> inflight (app_step no_fault mounted_app Tick) = [0, 1]
   \<and> inflight (run no_fault mounted_app [Tick, Tick]) = [0, 1, 2]"
  by (simp add: run_def app_step_def mounted_app_def mountEffect_def initialApp_def
      start_monitor_def)

text \<open>
  Claim C5. In every state the application reaches before it exits, when the
  collection of a cycle in flight fails, the scheduler records the error as
  \<^verbatim>\<open>lastSend\<close> (status \<^verbatim>\<open>ERROR\<close>, the collector's message), leaves the port
  untouched (no sink is invoked) and the cycle is over; the timer stays as it was, so
  the next tick starts a new collection, and when that one succeeds its snapshot becomes
  \<^verbatim>\<open>cpuStats\<close>. Nothing but the timer retries.
\<close>

theorem collector_failure_cycle:
  assumes "s = run flt (initialApp env t0) evs" and "\<not> exited s" and "i \<in> set (inflight s)"
    and "collectCPUStats now host loadR cpuR = Inl e"
  shows "lastSend (app_step flt s (CollectSettled i now host loadR cpuR)) =
           \<lparr>success = False, status = ''ERROR'', error = Some (errorMessage e), timestamp = now\<rparr>
       \<and> (\<exists>m. errorMessage e = ''Failed to collect CPU stats: '' @ m)
       \<and> oscPort (app_step flt s (CollectSettled i now host loadR cpuR)) = oscPort s
       \<and> inflight (app_step flt s (CollectSettled i now host loadR cpuR)) = remove1 i (inflight s)
       \<and> intervalActive (app_step flt s (CollectSettled i now host loadR cpuR)) = intervalActive s
       \<and> \<not> exited (app_step flt s (CollectSettled i now host loadR cpuR))
       \<and> intervalActive s
       \<and> inflight (app_step flt (app_step flt s (CollectSettled i now host loadR cpuR)) Tick)
              = remove1 i (inflight s) @ [started s]
       \<and> (\<forall>now' host' loadR' cpuR' st.
            collectCPUStats now' host' loadR' cpuR' = Inr st \<longrightarrow>
            cpuStats (run flt s [CollectSettled i now host loadR cpuR, Tick,
                                 CollectSettled (started s) now' host' loadR' cpuR']) = Some st)"
proof -
  let ?s1 = "app_step flt s (CollectSettled i now host loadR cpuR)"
  from assms(1) have "port_inv s"
    using port_inv_run [OF port_inv_initial] by simp
  with assms(2,3) have mounted: "isMounted s" and timer: "intervalActive s"
    by (auto simp: port_inv_def split: if_splits)
  have s1: "?s1 = monitor_catch now e (s\<lparr>inflight := remove1 i (inflight s)\<rparr>)"
    using assms(2-4) by (simp add: app_step_def monitor_resume_def)
  have msg: "\<exists>m. errorMessage e = ''Failed to collect CPU stats: '' @ m"
    using assms(4) by (auto simp: collectCPUStats_def errorMessage_def split: sum.splits)
  have tick: "app_step flt ?s1 Tick = start_monitor ?s1"
    unfolding s1 using assms(2) timer by (simp add: app_step_def monitor_catch_fields)
  have a: "lastSend ?s1 =
           \<lparr>success = False, status = ''ERROR'', error = Some (errorMessage e), timestamp = now\<rparr>"
    using mounted by (simp add: s1 monitor_catch_def)
  have b: "oscPort ?s1 = oscPort s" "inflight ?s1 = remove1 i (inflight s)"
    "intervalActive ?s1 = intervalActive s" "\<not> exited ?s1" "started ?s1 = started s"
    "isMounted ?s1"
    using assms(2) mounted by (simp_all add: s1 monitor_catch_fields)
  have c: "inflight (app_step flt ?s1 Tick) = remove1 i (inflight s) @ [started s]"
    using tick b by (simp add: start_monitor_def)
  have d: "cpuStats (run flt s [CollectSettled i now host loadR cpuR, Tick,
                                 CollectSettled (started s) now' host' loadR' cpuR']) = Some st"
    if h: "collectCPUStats now' host' loadR' cpuR' = Inr st"
    for now' host' loadR' cpuR' st
  proof -
    let ?s2 = "start_monitor ?s1"
    let ?s2' = "?s2\<lparr>inflight := remove1 (started s) (inflight ?s2)\<rparr>"
    have s2: "\<not> exited ?s2" "started s \<in> set (inflight ?s2)" "isMounted ?s2"
      using b by (simp_all add: start_monitor_def)
    then have "isMounted ?s2'" by simp
    then have "cpuStats (monitor_resume flt now' (Inr st) ?s2') = Some st"
      by (auto simp: monitor_resume_def monitor_catch_def Let_def split: sum.splits prod.splits)
    with s2 h tick show ?thesis
      by (simp add: run_def app_step_def [of flt ?s2])
  qed
  from a msg b c d timer show ?thesis by blast
qed

text \<open>
  Witness of C5: the first collection fails with \<^verbatim>\<open>EPERM\<close>; the cycle started by the
  next tick collects the example snapshot.
\<close>

theorem collector_failure_cycle_witness:
  "collectCPUStats ''t1'' ''studio'' (Inl (Error ''EPERM'')) (Inr example_cpu) =
     Inl (Error ''Failed to collect CPU stats: EPERM'')
   \<and> lastSend (app_step no_fault mounted_app
        (CollectSettled 0 ''t1'' ''studio'' (Inl (Error ''EPERM'')) (Inr example_cpu))) =
       \<lparr>success = False, status = ''ERROR'',
        error = Some ''Failed to collect CPU stats: EPERM'', timestamp = ''t1''\<rparr>
   \<and> oscPort (app_step no_fault mounted_app
        (CollectSettled 0 ''t1'' ''studio'' (Inl (Error ''EPERM'')) (Inr example_cpu))) =
       Some new_port
   \<and> cpuStats (run no_fault mounted_app
        [CollectSettled 0 ''t1'' ''studio'' (Inl (Error ''EPERM'')) (Inr example_cpu), Tick,
         CollectSettled 1 ''t1'' ''studio'' (Inr example_load) (Inr example_cpu)]) =
       Some (example_snapshot 2)"
proof -
  note f = mounted_app_fields
  have h: "collectCPUStats ''t1'' ''studio'' (Inl (Error ''EPERM'')) (Inr example_cpu) =
     Inl (Error ''Failed to collect CPU stats: EPERM'')"
    by (simp add: collectCPUStats_def collect_try_def bind_r_def errorMessage_def)
  have i: "0 \<in> set (inflight mounted_app)"
    by (simp add: f)
  have r: "mounted_app = run no_fault (initialApp None ''t0'') [Mount]"
    by (simp add: run_def app_step_def mounted_app_def initialApp_def)
  from collector_failure_cycle [OF r f(1) i h] f(2,5,6) example_collect
  show ?thesis using h
    by (simp add: errorMessage_def)
qed

text \<open>
  Claim C10. In every state the application reaches before it exits, once the OSC port
  is initialised a termination signal makes the shutdown path call \<^verbatim>\<open>close\<close> on the
  port twice: \<^verbatim>\<open>shutdown\<close> calls it, and the cleanup of the effect, which
  \<^verbatim>\<open>unmount\<close> runs, calls it again on the same handle. No call precedes them, so the
  port ends with two calls of \<^verbatim>\<open>close\<close>.
\<close>

theorem shutdown_closes_port_twice:
  assumes "s = run flt (initialApp env t0) evs" and "\<not> exited s" and "oscPort s = Some p"
  shows "closeCalls p = 0 \<and>
         app_step flt s Signal = shutdown s \<and>
         oscPort (shutdown s) = Some (port_close (port_close p)) \<and>
         map_option closeCalls (oscPort (shutdown s)) = Some 2 \<and>
         exited (shutdown s)"
proof -
  from assms(1) have "port_inv s"
    using port_inv_run [OF port_inv_initial] by simp
  with assms(2,3) have m: "isMounted s" and c: "closeCalls p = 0"
    by (simp_all add: port_inv_def)
  from assms(2) have "app_step flt s Signal = shutdown s"
    by (simp add: app_step_def)
  moreover from m assms(3) have "oscPort (shutdown s) = Some (port_close (port_close p))"
    by (simp add: shutdown_def unmount_def effect_cleanup_def)
  moreover have "exited (shutdown s)"
    by (simp add: shutdown_def)
  ultimately show ?thesis using c
    by (simp add: port_close_def)
qed

text \<open>Witness of C10: the application after the effect and one tick.\<close>

theorem shutdown_closes_port_twice_witness:
  "\<not> exited (run no_fault (initialApp None ''t0'') [Mount, Tick])
   \<and> oscPort (run no_fault (initialApp None ''t0'') [Mount, Tick]) = Some new_port
   \<and> map_option closeCalls (oscPort (shutdown (run no_fault (initialApp None ''t0'') [Mount, Tick])))
       = Some 2"
proof -
  have a: "\<not> exited (run no_fault (initialApp None ''t0'') [Mount, Tick])"
    and b: "oscPort (run no_fault (initialApp None ''t0'') [Mount, Tick]) = Some new_port"
    by (simp_all add: run_def app_step_def initialApp_def mountEffect_def start_monitor_def
        initializeOSC_def new_port_def)
  from shutdown_closes_port_twice [OF refl a b]
  have "map_option closeCalls (oscPort (shutdown (run no_fault (initialApp None ''t0'') [Mount, Tick])))
       = Some 2"
    by blast
  with a b show ?thesis
    by blast
qed


section \<open>The interval of the configuration\<close>

lemma digit_char_props:
  "d < 10 \<Longrightarrow> digit_val (digit_char d) = d \<and> is_digit (digit_char d)"
proof -
  assume "d < 10"
  then have "d \<in> set [0, 1, 2, 3, 4, 5, 6, 7, 8, 9]"
    by (simp add: numeral_eq_Suc less_Suc_eq) 
  then show ?thesis
    by (auto simp: digit_char_def digit_val_def is_digit_def)
qed

lemma is_digit_not_space_sign:
  "is_digit c \<Longrightarrow> \<not> is_js_space c \<and> c \<noteq> CHR ''-'' \<and> c \<noteq> CHR ''+''"
  by (auto simp: is_digit_def is_js_space_def)

lemma string_of_nat_digits: "list_all is_digit (string_of_nat n) \<and> string_of_nat n \<noteq> []"
proof (induction n rule: string_of_nat.induct)
  case (1 n)
  show ?case
  proof (cases "n < 10")
    case True
    then show ?thesis
      by (simp add: string_of_nat.simps [of n] digit_char_props)
  next
    case False
    with "1.IH" show ?thesis
      by (simp add: string_of_nat.simps [of n] digit_char_props)
  qed
qed

lemma digits_value_snoc: "digits_value (z @ [c]) = 10 * digits_value z + digit_val c"
  by (simp add: digits_value_def)

lemma digits_value_string_of_nat: "digits_value (string_of_nat n) = n"
proof (induction n rule: string_of_nat.induct)
  case (1 n)
  show ?case
  proof (cases "n < 10")
    case True
    then show ?thesis
      by (simp add: string_of_nat.simps [of n] digits_value_def digit_char_props)
  next
    case False
    with "1.IH" show ?thesis
      by (simp add: string_of_nat.simps [of n] digits_value_snoc digit_char_props)
  qed
qed

lemma takeWhile_all: "list_all P xs \<Longrightarrow> takeWhile P xs = xs"
  by (induction xs) simp_all

lemma parseInt10_digits:
  assumes "list_all is_digit z" and "z \<noteq> []"
  shows "parseInt10 z = nearest_double (of_nat (digits_value z))"
    and "parseInt10 (CHR ''-'' # z) = nearest_double (- of_nat (digits_value z))"
proof -
  from assms obtain c cs where z: "z = c # cs" and c: "is_digit c"
    by (cases z) auto
  from c have n: "\<not> is_js_space c" "c \<noteq> CHR ''-''" "c \<noteq> CHR ''+''"
    by (simp_all add: is_digit_not_space_sign)
  have t: "takeWhile is_digit z = z"
    using assms(1) by (rule takeWhile_all)
  from assms(1) z have tc: "takeWhile is_digit cs = cs"
    by (simp add: takeWhile_all)
  from n c show "parseInt10 z = nearest_double (of_nat (digits_value z))"
    unfolding z by (simp add: parseInt10_def Let_def tc)
  have "\<not> is_js_space CHR ''-''"
    by (simp add: is_js_space_def)
  with assms(2) show "parseInt10 (CHR ''-'' # z) = nearest_double (- of_nat (digits_value z))"
    by (simp add: parseInt10_def Let_def t)
qed

lemma nearest_double_nat:
  assumes "n < 2 ^ 53"
  shows "nearest_double (of_nat n) = Num (of_nat n)"
    and "nearest_double (- of_nat n) = Num (- of_nat n)"
proof -
  show "nearest_double (of_nat n) = Num (of_nat n)"
  proof (cases "n = 0")
    case True
    then show ?thesis by (simp add: nearest_double_def)
  next
    case False
    with assms have "0 < int n" "int n < 2 ^ 53" by simp_all
    from nearest_double_int(1) [OF this] show ?thesis by simp
  qed
  show "nearest_double (- of_nat n) = Num (- of_nat n)"
  proof (cases "n = 0")
    case True
    then show ?thesis by (simp add: nearest_double_def)
  next
    case False
    with assms have "0 < int n" "int n < 2 ^ 53" by simp_all
    from nearest_double_int(2) [OF this] show ?thesis by simp
  qed
qed

lemma parseInt10_examples:
  "parseInt10 ''10000'' = Num 10000" "parseInt10 ''250'' = Num 250"
  "parseInt10 ''0'' = Num 0" "parseInt10 ''-5'' = Num (- 5)"
proof -
  have "parseInt10 ''10000'' = nearest_double (of_nat 10000)"
    "parseInt10 ''250'' = nearest_double (of_nat 250)"
    "parseInt10 ''0'' = nearest_double (of_nat 0)"
    "parseInt10 ''-5'' = nearest_double (- of_nat 5)"
    by (simp_all add: parseInt10_def is_js_space_def is_digit_def digits_value_def digit_val_def)
  moreover have "(10000::nat) < 2 ^ 53" "(250::nat) < 2 ^ 53" "(0::nat) < 2 ^ 53" "(5::nat) < 2 ^ 53"
    by simp_all
  ultimately show "parseInt10 ''10000'' = Num 10000" "parseInt10 ''250'' = Num 250"
    "parseInt10 ''0'' = Num 0" "parseInt10 ''-5'' = Num (- 5)"
    using nearest_double_nat by (metis of_nat_numeral, metis of_nat_numeral, metis of_nat_0,
        metis of_nat_numeral)
qed

lemma INTERVAL_MS_default: "INTERVAL_MS None = Num 10000" "INTERVAL_MS (Some []) = Num 10000"
  by (simp_all add: INTERVAL_MS_def env_or_def parseInt10_examples)

text \<open>
  Claim C8, as amended. \<^verbatim>\<open>INTERVAL_MS\<close> is 10000 when the environment variable is
  unset or empty. Otherwise it is what \<^verbatim>\<open>parseInt\<close> reads, and no minimum is
  enforced anywhere: the decimal text of any \<open>n\<close> below \<open>2\<^sup>5\<^sup>3\<close>, zero included, gives
  \<open>n\<close>, and with a minus sign in front it gives \<open>- n\<close>. The effect hands exactly that
  value to \<^verbatim>\<open>setInterval\<close>, and in every state the application reaches the delay of
  the timer, while the timer is set, is that value.
\<close>

theorem INTERVAL_MS_no_minimum:
  "INTERVAL_MS None = Num 10000
   \<and> INTERVAL_MS (Some []) = Num 10000
   \<and> (n < 2 ^ 53 \<longrightarrow>
        INTERVAL_MS (Some (string_of_nat n)) = Num (of_nat n) \<and>
        INTERVAL_MS (Some (CHR ''-'' # string_of_nat n)) = Num (- of_nat n))
   \<and> intervalDelay (app_step flt (initialApp env t0) Mount) = Some (INTERVAL_MS env)
   \<and> (s = run flt (initialApp env t0) evs \<and> intervalActive s \<longrightarrow>
        intervalDelay s = Some (INTERVAL_MS env))"
proof (intro conjI impI)
  show "INTERVAL_MS None = Num 10000" "INTERVAL_MS (Some []) = Num 10000"
    by (rule INTERVAL_MS_default)+
  have d: "string_of_nat n \<noteq> []" "list_all is_digit (string_of_nat n)"
    by (simp_all add: string_of_nat_digits)
  {
    assume n: "n < 2 ^ 53"
    from parseInt10_digits [OF d(2,1)] nearest_double_nat [OF n] d(1)
    show "INTERVAL_MS (Some (string_of_nat n)) = Num (of_nat n)"
      and "INTERVAL_MS (Some (CHR ''-'' # string_of_nat n)) = Num (- of_nat n)"
      by (simp_all add: INTERVAL_MS_def env_or_def digits_value_string_of_nat)
  }
  show "intervalDelay (app_step flt (initialApp env t0) Mount) = Some (INTERVAL_MS env)"
    by (simp add: app_step_def initialApp_def mountEffect_def start_monitor_def)
  {
    assume "s = run flt (initialApp env t0) evs \<and> intervalActive s"
    with timer_inv_run [OF timer_inv_initial, of env flt t0 evs]
    show "intervalDelay s = Some (INTERVAL_MS env)"
      by (auto simp: timer_inv_def split: if_splits)
  }
qed

text \<open>
  Witness of C8 as amended: with \<^verbatim>\<open>INTERVAL_MS=250\<close> the constant is 250, and after the
  effect and a tick the timer is set with the delay 250.
\<close>

theorem INTERVAL_MS_no_minimum_witness:
  "(250::nat) < 2 ^ 53
   \<and> INTERVAL_MS (Some ''250'') = Num 250
   \<and> intervalActive (run no_fault (initialApp (Some ''250'') ''t0'') [Mount, Tick])
   \<and> intervalDelay (run no_fault (initialApp (Some ''250'') ''t0'') [Mount, Tick]) = Some (Num 250)"
proof -
  have n: "(250::nat) < 2 ^ 53" by simp
  have str: "string_of_nat 250 = ''250''"
    by (simp add: string_of_nat.simps digit_char_def)
  have a: "intervalActive (run no_fault (initialApp (Some ''250'') ''t0'') [Mount, Tick])"
    by (simp add: run_def app_step_def initialApp_def mountEffect_def start_monitor_def)
  note t = INTERVAL_MS_no_minimum [of 250 no_fault "Some ''250''" "''t0''"
      "run no_fault (initialApp (Some ''250'') ''t0'') [Mount, Tick]" "[Mount, Tick]"]
  from t n str have v: "INTERVAL_MS (Some ''250'') = Num 250"
    by simp
  from t a have "intervalDelay (run no_fault (initialApp (Some ''250'') ''t0'') [Mount, Tick]) =
      Some (INTERVAL_MS (Some ''250''))"
    by blast
  with n v a show ?thesis by simp
qed

text \<open>
  Counterexample to C8 as stated: with \<^verbatim>\<open>INTERVAL_MS=0\<close> the effect sets the timer
  with the delay 0, and with \<^verbatim>\<open>INTERVAL_MS=-5\<close> with the delay \<open>- 5\<close>; neither is
  raised to 1.
\<close>

theorem INTERVAL_MS_zero_counterexample:
  "INTERVAL_MS (Some ''0'') = Num 0
   \<and> intervalDelay (run no_fault (initialApp (Some ''0'') ''t0'') [Mount]) = Some (Num 0)
   \<and> INTERVAL_MS (Some ''-5'') = Num (- 5)
   \<and> intervalDelay (run no_fault (initialApp (Some ''-5'') ''t0'') [Mount]) = Some (Num (- 5))"
proof (intro conjI)
  show a: "INTERVAL_MS (Some ''0'') = Num 0"
    by (simp add: INTERVAL_MS_def env_or_def parseInt10_examples)
  show b: "INTERVAL_MS (Some ''-5'') = Num (- 5)"
    by (simp add: INTERVAL_MS_def env_or_def parseInt10_examples)
  show "intervalDelay (run no_fault (initialApp (Some ''0'') ''t0'') [Mount]) = Some (Num 0)"
    by (simp add: run_def app_step_def initialApp_def mountEffect_def start_monitor_def a)
  show "intervalDelay (run no_fault (initialApp (Some ''-5'') ''t0'') [Mount]) = Some (Num (- 5))"
    by (simp add: run_def app_step_def initialApp_def mountEffect_def start_monitor_def b)
qed

section \<open>The pull endpoint\<close>

lemma test_server_get_root:
  "test_server ''GET'' ''/'' parsed = \<lparr>test_status = 404, test_body = NotFound\<rparr>"
  by (simp add: test_server_def)

lemma pull_store_last:
  "snaps \<noteq> [] \<Longrightarrow> foldl (\<lambda>store snap. pull_disseminate snap store) store0 snaps = Some (last snaps)"
  by (induction snaps arbitrary: store0) (auto simp: pull_disseminate_def)

text \<open>
  Claim C7. A \<^verbatim>\<open>GET /\<close> that arrives while the store is still absent, that is before
  the first cycle has completed, is answered with status 503 and the body
  \<^verbatim>\<open>{"error": "No data available yet"}\<close>. After one or more cycles it is answered
  with status 200 and the array of the latest snapshot, whose names and values are those
  of the messages the UDP sink sends for that snapshot, in the same order.
\<close>

theorem http_get_pull:
  "http_get None = \<lparr>http_status = 503, body = ErrorBody ''No data available yet''\<rparr>
   \<and> (snaps \<noteq> [] \<longrightarrow>
        http_get (foldl (\<lambda>store snap. pull_disseminate snap store) None snaps) =
          \<lparr>http_status = 200, body = ArrayBody (pull_pairs (last snaps))\<rparr>)
   \<and> map (\<lambda>nv. (name nv, [val nv])) (pull_pairs snap)
       = map (\<lambda>m. (address m, map osc_value (args m))) (osc_batch snap)"
proof (intro conjI impI)
  show "http_get None = \<lparr>http_status = 503, body = ErrorBody ''No data available yet''\<rparr>"
    by (simp add: http_get_def)
  show "http_get (foldl (\<lambda>store snap. pull_disseminate snap store) None snaps) =
          \<lparr>http_status = 200, body = ArrayBody (pull_pairs (last snaps))\<rparr>"
    if "snaps \<noteq> []"
    using that by (simp add: pull_store_last http_get_def)
  show "map (\<lambda>nv. (name nv, [val nv])) (pull_pairs snap)
       = map (\<lambda>m. (address m, map osc_value (args m))) (osc_batch snap)"
    by (simp add: pull_pairs_def osc_batch_def core_message_def osc_value_def comp_def)
qed

text \<open>Witness of C7: two cycles; the request gets the second snapshot.\<close>

theorem http_get_pull_witness:
  "[example_snapshot 2, example_stats] \<noteq> []
   \<and> http_get (foldl (\<lambda>store snap. pull_disseminate snap store) None
        [example_snapshot 2, example_stats]) =
       \<lparr>http_status = 200, body = ArrayBody (pull_pairs example_stats)\<rparr>"
proof -
  have h: "[example_snapshot 2, example_stats] \<noteq> []"
    by simp
  from http_get_pull [of "[example_snapshot 2, example_stats]"] h
  have "http_get (foldl (\<lambda>store snap. pull_disseminate snap store) None
        [example_snapshot 2, example_stats]) =
       \<lparr>http_status = 200, body = ArrayBody (pull_pairs (last [example_snapshot 2, example_stats]))\<rparr>"
    by blast
  then show ?thesis
    by simp
qed

end
